theory Spec2Isabelle
  imports Complex_Main
begin

section \<open>Python values, exceptions and the interpreter's built-ins\<close>

text \<open>
  The two modules \<^verbatim>\<open>eval_rpn.py\<close> and \<^verbatim>\<open>eval_prefix.py\<close> evaluate expressions in
  postfix and prefix notation. A token is a \<^verbatim>\<open>str\<close> or a number. Numbers are Python's
  \<^verbatim>\<open>int\<close> (unbounded), \<^verbatim>\<open>bool\<close> (a result of a comparison) and \<^verbatim>\<open>float\<close>. The type of
  floats is the parameter \<open>'f\<close>: their arithmetic is the interpreter's, not the
  repository's, and is taken as a parameter below.
\<close>

datatype 'f num = PInt int | PBool bool | PFloat 'f

datatype 'f token = TStr string | TNum "'f num"

text \<open>
  Exceptions. \<open>Builtin c\<close> is an exception of class \<open>c\<close> raised by the interpreter or the
  standard library (its message is not modelled); \<open>Raise c msg\<close> is raised by the
  repository's own \<^verbatim>\<open>raise c(msg)\<close>. \<open>Unmodelled\<close> cuts a run off where Python would
  go on with a value outside this model: a \<^verbatim>\<open>complex\<close> power, or an operator of the
  table applied to a \<^verbatim>\<open>str\<close> operand.
\<close>

datatype exn = ValueError | IndexError | KeyError | ZeroDivisionError | TypeError | OverflowError

datatype py_error = Builtin exn | Raise exn string | Unmodelled

fun exn_class :: "py_error \<Rightarrow> exn option" where
  "exn_class (Builtin c) = Some c"
| "exn_class (Raise c msg) = Some c"
| "exn_class Unmodelled = None"

text \<open>The functions of the \<^verbatim>\<open>operator\<close> module that the table \<^verbatim>\<open>OPCODES\<close> refers to.\<close>

datatype opfun = Add | Sub | Mul | Truediv | Floordiv | Mod | Pow | Lt | Le | Gt | Ge | Eq | Ne

datatype 'f float_result = FValue 'f | FOverflow | FZeroDivision | FComplex

text \<open>
  What the interpreter provides and the model does not fix: the limit of \<^verbatim>\<open>int()\<close> on
  the number of digits (\<open>None\<close>: no limit; \<open>Some k\<close>: a limit of \<open>640 + k\<close> digits, as
  the interpreter accepts no limit below 640), rounding of a rational to the nearest float,
  negation, \<^verbatim>\<open>inf\<close> and \<^verbatim>\<open>nan\<close>, the test \<^verbatim>\<open>x == 0.0\<close>, arithmetic on two floats whose
  divisor is not zero, and comparisons where one side is a float.
\<close>

record 'f pyenv =
  int_max_str_digits :: "nat option"
  nearest :: "rat \<Rightarrow> 'f"
  float_neg :: "'f \<Rightarrow> 'f"
  float_inf :: 'f
  float_nan :: 'f
  float_is_zero :: "'f \<Rightarrow> bool"
  float_arith :: "opfun \<Rightarrow> 'f \<Rightarrow> 'f \<Rightarrow> 'f float_result"
  float_compare :: "opfun \<Rightarrow> 'f num \<Rightarrow> 'f num \<Rightarrow> bool"

subsection \<open>Arithmetic of the \<^verbatim>\<open>operator\<close> module\<close>

fun as_int :: "'f num \<Rightarrow> int option" where
  "as_int (PInt i) = Some i"
| "as_int (PBool b) = Some (if b then 1 else 0)"
| "as_int (PFloat x) = None"

fun num_is_zero :: "'f pyenv \<Rightarrow> 'f num \<Rightarrow> bool" where
  "num_is_zero env (PInt i) = (i = 0)"
| "num_is_zero env (PBool b) = (\<not> b)"
| "num_is_zero env (PFloat x) = float_is_zero env x"

definition is_division :: "opfun \<Rightarrow> bool" where
  "is_division f = (f = Truediv \<or> f = Floordiv \<or> f = Mod)"

text \<open>
  A rational whose nearest float would be \<open>2 ^ 1024\<close> or beyond: converting such an
  \<^verbatim>\<open>int\<close> to \<^verbatim>\<open>float\<close>, or dividing two ints with such a quotient, raises
  \<^verbatim>\<open>OverflowError\<close>.
\<close>

definition too_large_for_float :: "rat \<Rightarrow> bool" where
  "too_large_for_float q = (2 ^ 1024 - 2 ^ 970 \<le> \<bar>q\<bar>)"

fun to_double :: "'f pyenv \<Rightarrow> 'f num \<Rightarrow> py_error + 'f" where
  "to_double env (PFloat x) = Inr x"
| "to_double env (PInt i) =
     (if too_large_for_float (of_int i) then Inl (Builtin OverflowError)
      else Inr (nearest env (of_int i)))"
| "to_double env (PBool b) = Inr (nearest env (if b then 1 else 0))"

text \<open>
  Arithmetic with a float operand: both operands are converted (left first), then a
  zero divisor raises \<^verbatim>\<open>ZeroDivisionError\<close>, then the floats are combined. (The
  interpreter tests the converted divisor; an int converts to zero only if it is zero.)
\<close>

definition float_operator :: "'f pyenv \<Rightarrow> opfun \<Rightarrow> 'f num \<Rightarrow> 'f num \<Rightarrow> py_error + 'f num" where
  "float_operator env f l r =
     (case to_double env l of
        Inl e \<Rightarrow> Inl e
      | Inr a \<Rightarrow>
          (case to_double env r of
             Inl e \<Rightarrow> Inl e
           | Inr b \<Rightarrow>
               if is_division f \<and> num_is_zero env r then Inl (Builtin ZeroDivisionError)
               else (case float_arith env f a b of
                       FValue x \<Rightarrow> Inr (PFloat x)
                     | FOverflow \<Rightarrow> Inl (Builtin OverflowError)
                     | FZeroDivision \<Rightarrow> Inl (Builtin ZeroDivisionError)
                     | FComplex \<Rightarrow> Inl Unmodelled)))"

text \<open>Both operands are ints (a bool counts as 0 or 1).\<close>

fun int_operator :: "'f pyenv \<Rightarrow> opfun \<Rightarrow> int \<Rightarrow> int \<Rightarrow> py_error + 'f num" where
  "int_operator env Add l r = Inr (PInt (l + r))"
| "int_operator env Sub l r = Inr (PInt (l - r))"
| "int_operator env Mul l r = Inr (PInt (l * r))"
| "int_operator env Truediv l r =
     (if r = 0 then Inl (Builtin ZeroDivisionError)
      else if too_large_for_float (of_int l / of_int r) then Inl (Builtin OverflowError)
      else Inr (PFloat (nearest env (of_int l / of_int r))))"
| "int_operator env Floordiv l r =
     (if r = 0 then Inl (Builtin ZeroDivisionError) else Inr (PInt (l div r)))"
| "int_operator env Mod l r =
     (if r = 0 then Inl (Builtin ZeroDivisionError) else Inr (PInt (l mod r)))"
| "int_operator env Pow l r =
     (if 0 \<le> r then Inr (PInt (l ^ nat r)) else float_operator env Pow (PInt l) (PInt r))"
| "int_operator env Lt l r = Inr (PBool (l < r))"
| "int_operator env Le l r = Inr (PBool (l \<le> r))"
| "int_operator env Gt l r = Inr (PBool (l > r))"
| "int_operator env Ge l r = Inr (PBool (l \<ge> r))"
| "int_operator env Eq l r = Inr (PBool (l = r))"
| "int_operator env Ne l r = Inr (PBool (l \<noteq> r))"

definition is_compare :: "opfun \<Rightarrow> bool" where
  "is_compare f = (f = Lt \<or> f = Le \<or> f = Gt \<or> f = Ge \<or> f = Eq \<or> f = Ne)"

definition py_operator :: "'f pyenv \<Rightarrow> opfun \<Rightarrow> 'f num \<Rightarrow> 'f num \<Rightarrow> py_error + 'f num" where
  "py_operator env f l r =
     (case (as_int l, as_int r) of
        (Some i, Some j) \<Rightarrow> int_operator env f i j
      | _ \<Rightarrow> if is_compare f then Inr (PBool (float_compare env f l r))
             else float_operator env f l r)"

subsection \<open>\<^verbatim>\<open>str.split()\<close>, \<^verbatim>\<open>int()\<close> and \<^verbatim>\<open>float()\<close> on strings of code points below 256\<close>

text \<open>
  A string is a list of code points below 256. \<^verbatim>\<open>int\<close> and \<^verbatim>\<open>float\<close> are modelled on
  words of \<^verbatim>\<open>split()\<close>, which hold no whitespace: the stripping of surrounding whitespace
  that both do first is left out.
\<close>

definition is_space :: "char \<Rightarrow> bool" where
  "is_space c = (c \<in> {CHR 0x09, CHR 0x0A, CHR 0x0B, CHR 0x0C, CHR 0x0D, CHR 0x1C, CHR 0x1D,
                      CHR 0x1E, CHR 0x1F, CHR 0x20, CHR 0x85, CHR 0xA0})"

text \<open>\<open>split_from cur s\<close>: \<open>cur\<close> holds the characters of the current word, last first.\<close>

fun split_from :: "string \<Rightarrow> string \<Rightarrow> string list" where
  "split_from cur [] = (if cur = [] then [] else [rev cur])"
| "split_from cur (c # cs) =
     (if is_space c then (if cur = [] then split_from [] cs else rev cur # split_from [] cs)
      else split_from (c # cur) cs)"

definition py_split :: "string \<Rightarrow> string list" where
  "py_split s = split_from [] s"

definition digit_of :: "char \<Rightarrow> nat option" where
  "digit_of c = map_of (zip ''0123456789'' [0, 1, 2, 3, 4, 5, 6, 7, 8, 9]) c"

definition is_digit :: "char \<Rightarrow> bool" where
  "is_digit c = (digit_of c \<noteq> None)"

definition digits_value :: "string \<Rightarrow> int" where
  "digits_value ds = foldl (\<lambda>acc c. 10 * acc + int (the (digit_of c))) 0 ds"

text \<open>
  Underscores of a numeric literal: each stands between two digits. The result is the
  literal without them.
\<close>

fun strip_underscores :: "char option \<Rightarrow> string \<Rightarrow> string option" where
  "strip_underscores prev [] = (if prev = Some CHR ''_'' then None else Some [])"
| "strip_underscores prev (c # cs) =
     (if c = CHR ''_'' then
        (case prev of
           None \<Rightarrow> None
         | Some p \<Rightarrow> if is_digit p then strip_underscores (Some c) cs else None)
      else if prev = Some CHR ''_'' \<and> \<not> is_digit c then None
      else map_option ((#) c) (strip_underscores (Some c) cs))"

definition split_sign :: "string \<Rightarrow> bool \<times> string" where
  "split_sign s =
     (case s of
        c # cs \<Rightarrow> if c = CHR ''-'' then (True, cs) else if c = CHR ''+'' then (False, cs)
                  else (False, s)
      | [] \<Rightarrow> (False, s))"

definition py_int :: "'f pyenv \<Rightarrow> string \<Rightarrow> py_error + int" where
  "py_int env s =
     (case strip_underscores None s of
        None \<Rightarrow> Inl (Builtin ValueError)
      | Some t \<Rightarrow>
          (let (neg, ds) = split_sign t in
           if ds = [] \<or> \<not> list_all is_digit ds then Inl (Builtin ValueError)
           else if (case int_max_str_digits env of None \<Rightarrow> False | Some k \<Rightarrow> 640 + k < length ds)
             then Inl (Builtin ValueError)
           else Inr (if neg then - digits_value ds else digits_value ds)))"

definition lower :: "char \<Rightarrow> char" where
  "lower c = (case map_of (zip ''ABCDEFGHIJKLMNOPQRSTUVWXYZ'' ''abcdefghijklmnopqrstuvwxyz'') c of
                None \<Rightarrow> c | Some d \<Rightarrow> d)"

text \<open>
  The exponent part of a float literal, after the mantissa: nothing, or \<^verbatim>\<open>e\<close>, an
  optional sign and at least one digit.
\<close>

definition exponent_of :: "string \<Rightarrow> int option" where
  "exponent_of s =
     (case s of
        [] \<Rightarrow> Some 0
      | c # cs \<Rightarrow>
          if lower c = CHR ''e'' then
            (let (neg, ds) = split_sign cs in
             if ds = [] \<or> \<not> list_all is_digit ds then None
             else Some (if neg then - digits_value ds else digits_value ds))
          else None)"

text \<open>The value of an unsigned decimal literal: digits, an optional point, an exponent.\<close>

definition decimal_value :: "string \<Rightarrow> rat option" where
  "decimal_value s =
     (let ip = takeWhile is_digit s; r1 = dropWhile is_digit s;
          fp = (case r1 of c # cs \<Rightarrow> if c = CHR ''.'' then takeWhile is_digit cs else [] | [] \<Rightarrow> []);
          r2 = (case r1 of c # cs \<Rightarrow> if c = CHR ''.'' then dropWhile is_digit cs else r1 | [] \<Rightarrow> [])
      in if ip = [] \<and> fp = [] then None
         else (case exponent_of r2 of
                 None \<Rightarrow> None
               | Some e \<Rightarrow>
                   Some (of_int (digits_value (ip @ fp)) * 10 powi (e - int (length fp)))))"

definition py_float :: "'f pyenv \<Rightarrow> string \<Rightarrow> py_error + 'f" where
  "py_float env s =
     (case strip_underscores None s of
        None \<Rightarrow> Inl (Builtin ValueError)
      | Some t \<Rightarrow>
          (let (neg, body) = split_sign t;
               sign = (\<lambda>x. if neg then float_neg env x else x);
               word = map lower body
           in if word = ''inf'' \<or> word = ''infinity'' then Inr (sign (float_inf env))
              else if word = ''nan'' then Inr (sign (float_nan env))
              else (case decimal_value body of
                      None \<Rightarrow> Inl (Builtin ValueError)
                    | Some q \<Rightarrow> Inr (sign (nearest env q)))))"

section \<open>The operator table and the tokenizer (the same in both modules)\<close>

definition OPCODES :: "(string \<times> opfun) list" where
  "OPCODES =
     [(''+'', Add), (''-'', Sub), (''*'', Mul), (''/'', Truediv), (''//'', Floordiv),
      (''%'', Mod), (''^'', Pow), (''<'', Lt), (''<='', Le), (''>'', Gt), (''>='', Ge),
      (''=='', Eq), (''!='', Ne)]"

text \<open>\<^verbatim>\<open>OPCODES[opcode]\<close>: no number is a key of the table.\<close>

fun opcodes_lookup :: "'f token \<Rightarrow> opfun option" where
  "opcodes_lookup (TStr s) = map_of OPCODES s"
| "opcodes_lookup (TNum n) = None"

text \<open>\<^verbatim>\<open>tok in OPCODES\<close>\<close>

definition in_opcodes :: "'f token \<Rightarrow> bool" where
  "in_opcodes tok = (opcodes_lookup tok \<noteq> None)"

text \<open>\<^verbatim>\<open>_eval_op(lhs, rhs, opcode)\<close>: the lookup comes first, then the call.\<close>

definition eval_op :: "'f pyenv \<Rightarrow> 'f token \<Rightarrow> 'f token \<Rightarrow> 'f token \<Rightarrow> py_error + 'f token" where
  "eval_op env lhs rhs opcode =
     (case opcodes_lookup opcode of
        None \<Rightarrow> Inl (Builtin KeyError)
      | Some f \<Rightarrow>
          (case (lhs, rhs) of
             (TNum l, TNum r) \<Rightarrow>
               (case py_operator env f l r of Inl e \<Rightarrow> Inl e | Inr v \<Rightarrow> Inr (TNum v))
           | _ \<Rightarrow> Inl Unmodelled))"

text \<open>
  \<^verbatim>\<open>_try_parse(value, *parse_functions)\<close>: the first parse function that does not raise
  \<^verbatim>\<open>ValueError\<close> gives the result.
\<close>

definition invalid_symbol :: "string \<Rightarrow> py_error" where
  "invalid_symbol v = Raise ValueError (''Invalid symbol '' @ [CHR 0x27] @ v @ [CHR 0x27] @ '' found.'')"

fun try_parse :: "string \<Rightarrow> (string \<Rightarrow> py_error + 'u) list \<Rightarrow> py_error + 'u" where
  "try_parse v [] = Inl (invalid_symbol v)"
| "try_parse v (parse_function # rest) =
     (case parse_function v of
        Inr u \<Rightarrow> Inr u
      | Inl e \<Rightarrow> if exn_class e = Some ValueError then try_parse v rest else Inl e)"

text \<open>
  An iterable is a generator or a list. A generator is the list of the outcomes of its
  \<^verbatim>\<open>next()\<close> calls: a value, or the exception that ends it.
\<close>

datatype 'a iterable = Generator "(py_error + 'a) list" | PyList "'a list"

fun iter :: "'a iterable \<Rightarrow> (py_error + 'a) list" where
  "iter (Generator outcomes) = outcomes"
| "iter (PyList xs) = map Inr xs"

definition int_token :: "'f pyenv \<Rightarrow> string \<Rightarrow> py_error + 'f token" where
  "int_token env s = (case py_int env s of Inl e \<Rightarrow> Inl e | Inr i \<Rightarrow> Inr (TNum (PInt i)))"

definition float_token :: "'f pyenv \<Rightarrow> string \<Rightarrow> py_error + 'f token" where
  "float_token env s = (case py_float env s of Inl e \<Rightarrow> Inl e | Inr x \<Rightarrow> Inr (TNum (PFloat x)))"

definition classify :: "'f pyenv \<Rightarrow> string \<Rightarrow> py_error + 'f token" where
  "classify env token =
     (if in_opcodes (TStr token :: 'f token) then Inr (TStr token)
      else try_parse token [int_token env, float_token env])"

text \<open>
  The loop of \<^verbatim>\<open>_tokenize_expr\<close> over the words: each word yields its token; a word that
  raises ends the generator with its exception, and the words after it are not looked at.
\<close>

fun tokenize_words :: "'f pyenv \<Rightarrow> string list \<Rightarrow> (py_error + 'f token) list" where
  "tokenize_words env [] = []"
| "tokenize_words env (token # rest) =
     (case classify env token of
        Inl e \<Rightarrow> [Inl e]
      | Inr tok \<Rightarrow> Inr tok # tokenize_words env rest)"

definition tokenize_expr :: "'f pyenv \<Rightarrow> string \<Rightarrow> 'f token iterable" where
  "tokenize_expr env expr = Generator (tokenize_words env (py_split expr))"

section \<open>\<^verbatim>\<open>eval_rpn.py\<close>: the stack engine\<close>

definition postfix_swap :: "'a \<Rightarrow> 'a \<Rightarrow> 'a \<times> 'a" where
  "postfix_swap a b = (b, a)"

definition prefix_swap :: "'a \<Rightarrow> 'a \<Rightarrow> 'a \<times> 'a" where
  "prefix_swap a b = (a, b)"

text \<open>The \<^verbatim>\<open>except\<close> clauses of the engine: each re-raises its class with a new message.\<close>

definition rpn_reraise :: "py_error \<Rightarrow> py_error" where
  "rpn_reraise e =
     (if exn_class e = Some IndexError then Raise IndexError ''Invalid expression.''
      else if exn_class e = Some KeyError then Raise KeyError ''Invalid operator.''
      else if exn_class e = Some ZeroDivisionError then Raise ZeroDivisionError ''Can not divide by zero.''
      else e)"

text \<open>
  The \<^verbatim>\<open>try\<close> block for an operator token. A stack is a list with its top first:
  \<open>a\<close> is the first value popped, \<open>b\<close> the second.
\<close>

definition rpn_apply ::
  "'f pyenv \<Rightarrow> ('f token \<Rightarrow> 'f token \<Rightarrow> 'f token \<times> 'f token) \<Rightarrow> 'f token \<Rightarrow> 'f token list
     \<Rightarrow> py_error + 'f token list" where
  "rpn_apply env swap_func tok operands =
     (case operands of
        a # b # rest \<Rightarrow>
          (let (lhs, rhs) = swap_func a b in
           case eval_op env lhs rhs tok of
             Inl e \<Rightarrow> Inl (rpn_reraise e)
           | Inr v \<Rightarrow> Inr (v # rest))
      | _ \<Rightarrow> Inl (rpn_reraise (Builtin IndexError)))"

fun rpn_loop ::
  "'f pyenv \<Rightarrow> ('f token \<Rightarrow> 'f token \<Rightarrow> 'f token \<times> 'f token) \<Rightarrow> (py_error + 'f token) list
     \<Rightarrow> 'f token list \<Rightarrow> py_error + 'f token list" where
  "rpn_loop env swap_func [] operands = Inr operands"
| "rpn_loop env swap_func (Inl e # rest) operands = Inl e"
| "rpn_loop env swap_func (Inr tok # rest) operands =
     (if in_opcodes tok then
        (case rpn_apply env swap_func tok operands of
           Inl e \<Rightarrow> Inl e
         | Inr operands' \<Rightarrow> rpn_loop env swap_func rest operands')
      else rpn_loop env swap_func rest (tok # operands))"

definition rpn_eval_expr ::
  "'f pyenv \<Rightarrow> 'f token iterable \<Rightarrow> ('f token \<Rightarrow> 'f token \<Rightarrow> 'f token \<times> 'f token)
     \<Rightarrow> py_error + 'f token" where
  "rpn_eval_expr env tokens swap_func =
     (case rpn_loop env swap_func (iter tokens) [] of
        Inl e \<Rightarrow> Inl e
      | Inr operands \<Rightarrow>
          if length operands \<noteq> 1 then Inl (Raise ValueError ''Invalid expression.'')
          else Inr (hd operands))"

definition eval_postfix_expr :: "'f pyenv \<Rightarrow> string \<Rightarrow> py_error + 'f token" where
  "eval_postfix_expr env expr = rpn_eval_expr env (tokenize_expr env expr) postfix_swap"

text \<open>\<^verbatim>\<open>reversed(x)\<close> needs a sequence; a generator is none.\<close>

fun py_reversed :: "'a iterable \<Rightarrow> py_error + 'a iterable" where
  "py_reversed (Generator outcomes) = Inl (Builtin TypeError)"
| "py_reversed (PyList xs) = Inr (PyList (rev xs))"

text \<open>\<^verbatim>\<open>list(x)\<close> runs a generator to its end.\<close>

fun py_list :: "(py_error + 'a) list \<Rightarrow> py_error + 'a list" where
  "py_list [] = Inr []"
| "py_list (Inl e # rest) = Inl e"
| "py_list (Inr x # rest) = (case py_list rest of Inl e \<Rightarrow> Inl e | Inr xs \<Rightarrow> Inr (x # xs))"

text \<open>\<^verbatim>\<open>eval_prefix_expr\<close> of \<^verbatim>\<open>eval_rpn.py\<close>.\<close>

definition rpn_eval_prefix_expr :: "'f pyenv \<Rightarrow> string \<Rightarrow> py_error + 'f token" where
  "rpn_eval_prefix_expr env expr =
     (case py_reversed (tokenize_expr env expr) of
        Inl e \<Rightarrow> Inl e
      | Inr r \<Rightarrow>
          (case py_list (iter r) of
             Inl e \<Rightarrow> Inl e
           | Inr tokens \<Rightarrow> rpn_eval_expr env (PyList tokens) prefix_swap))"

section \<open>\<^verbatim>\<open>eval_prefix.py\<close>: the forward scan with a count stack\<close>

text \<open>The \<^verbatim>\<open>except\<close> clauses around the reduction of a completed subexpression.\<close>

definition prefix_reraise :: "py_error \<Rightarrow> py_error" where
  "prefix_reraise e =
     (if exn_class e = Some ValueError \<or> exn_class e = Some IndexError
        then Raise ValueError ''Invalid expression.''
      else if exn_class e = Some ZeroDivisionError then Raise ValueError ''Can not divide by zero.''
      else e)"

text \<open>
  The \<^verbatim>\<open>try\<close> block of the \<^verbatim>\<open>while\<close> loop: \<^verbatim>\<open>rhs\<close>, \<^verbatim>\<open>lhs\<close> and \<^verbatim>\<open>op\<close> are popped in
  this order, and the result is pushed.
\<close>

definition reduce :: "'f pyenv \<Rightarrow> 'f token list \<Rightarrow> py_error + 'f token list" where
  "reduce env token_stack =
     (case token_stack of
        rhs # lhs # op # rest \<Rightarrow>
          (case eval_op env lhs rhs op of
             Inl e \<Rightarrow> Inl (prefix_reraise e)
           | Inr v \<Rightarrow> Inr (v # rest))
      | _ \<Rightarrow> Inl (prefix_reraise (Builtin IndexError)))"

text \<open>\<^verbatim>\<open>if count_stack: count_stack[-1] -= 1\<close>\<close>

fun dec_top :: "int list \<Rightarrow> int list" where
  "dec_top [] = []"
| "dec_top (c # cs) = (c - 1) # cs"

text \<open>The \<^verbatim>\<open>while count_stack and count_stack[-1] == 0\<close> loop.\<close>

function cascade :: "'f pyenv \<Rightarrow> 'f token list \<Rightarrow> int list \<Rightarrow> py_error + 'f token list \<times> int list" where
  "cascade env token_stack [] = Inr (token_stack, [])"
| "cascade env token_stack (c # cs) =
     (if c = 0 then
        (case reduce env token_stack of
           Inl e \<Rightarrow> Inl e
         | Inr token_stack' \<Rightarrow> cascade env token_stack' (dec_top cs))
      else Inr (token_stack, c # cs))"
  by pat_completeness auto
termination
proof (relation "measure (\<lambda>(env, token_stack, count_stack). length count_stack)")
  fix cs :: "int list"
  have "length (dec_top cs) = length cs" by (cases cs) simp_all
  then show "\<And>env token_stack c x2.
       ((env, x2, dec_top cs), (env, token_stack, c # cs))
         \<in> measure (\<lambda>(env, token_stack, count_stack). length count_stack)"
    by simp
qed simp

text \<open>
  The first part of the loop body, for one token. \<open>rest\<close> is what the iterator has not
  yet given. The result says whether \<^verbatim>\<open>list(tokens)\<close> has run the generator to its end,
  and gives the two stacks.
\<close>

definition take_token ::
  "'f token iterable \<Rightarrow> 'f token \<Rightarrow> (py_error + 'f token) list \<Rightarrow> 'f token list \<Rightarrow> int list
     \<Rightarrow> py_error + bool \<times> 'f token list \<times> int list" where
  "take_token tokens token rest token_stack count_stack =
     (case token of
        TNum n \<Rightarrow>
          (if token_stack = [] then
             (case tokens of
                Generator outcomes \<Rightarrow>
                  (case py_list rest of
                     Inl e \<Rightarrow> Inl e
                   | Inr following \<Rightarrow>
                       if length following > 1 then Inl (Raise ValueError ''Invalid expression.'')
                       else Inr (True, token # token_stack, dec_top count_stack))
              | PyList xs \<Rightarrow>
                  if length xs > 1 then Inl (Raise ValueError ''Invalid expression.'')
                  else Inr (False, token # token_stack, dec_top count_stack))
           else Inr (False, token # token_stack, dec_top count_stack))
      | TStr s \<Rightarrow>
          if in_opcodes token then Inr (False, token # token_stack, 2 # count_stack)
          else Inl (Raise ValueError ''Invalid operator seen.''))"

fun prefix_loop ::
  "'f pyenv \<Rightarrow> 'f token iterable \<Rightarrow> (py_error + 'f token) list \<Rightarrow> 'f token list \<Rightarrow> int list
     \<Rightarrow> py_error + 'f token list \<times> int list" where
  "prefix_loop env tokens [] token_stack count_stack = Inr (token_stack, count_stack)"
| "prefix_loop env tokens (Inl e # rest) token_stack count_stack = Inl e"
| "prefix_loop env tokens (Inr token # rest) token_stack count_stack =
     (case take_token tokens token rest token_stack count_stack of
        Inl e \<Rightarrow> Inl e
      | Inr (exhausted, token_stack', count_stack') \<Rightarrow>
          (case cascade env token_stack' count_stack' of
             Inl e \<Rightarrow> Inl e
           | Inr (token_stack'', count_stack'') \<Rightarrow>
               prefix_loop env tokens (if exhausted then [] else rest) token_stack'' count_stack''))"

definition prefix_eval_expr :: "'f pyenv \<Rightarrow> 'f token iterable \<Rightarrow> py_error + 'f token" where
  "prefix_eval_expr env tokens =
     (case prefix_loop env tokens (iter tokens) [] [] of
        Inl e \<Rightarrow> Inl e
      | Inr (token_stack, count_stack) \<Rightarrow>
          if length token_stack \<noteq> 1 \<or> count_stack \<noteq> [] then Inl (Raise ValueError ''Invalid expression.'')
          else if token_stack \<noteq> [] then Inr (hd token_stack)
          else Inr (TNum (PInt 0)))"

definition eval_prefix_expr :: "'f pyenv \<Rightarrow> string \<Rightarrow> py_error + 'f token" where
  "eval_prefix_expr env expr = prefix_eval_expr env (tokenize_expr env expr)"

section \<open>A reference interpreter for running the model\<close>

text \<open>
  Floats without rounding: a rational, an infinity or \<^verbatim>\<open>nan\<close>. It serves to run the
  definitions on concrete expressions; the theorems below hold for every interpreter.
\<close>

datatype ideal_float = Finite rat | PlusInf | MinusInf | NotANumber

fun ideal_neg :: "ideal_float \<Rightarrow> ideal_float" where
  "ideal_neg (Finite q) = Finite (- q)"
| "ideal_neg PlusInf = MinusInf"
| "ideal_neg MinusInf = PlusInf"
| "ideal_neg NotANumber = NotANumber"

fun ideal_arith :: "opfun \<Rightarrow> ideal_float \<Rightarrow> ideal_float \<Rightarrow> ideal_float float_result" where
  "ideal_arith Add (Finite a) (Finite b) = FValue (Finite (a + b))"
| "ideal_arith Sub (Finite a) (Finite b) = FValue (Finite (a - b))"
| "ideal_arith Mul (Finite a) (Finite b) = FValue (Finite (a * b))"
| "ideal_arith Truediv (Finite a) (Finite b) =
     (if b = 0 then FZeroDivision else FValue (Finite (a / b)))"
| "ideal_arith Floordiv (Finite a) (Finite b) =
     (if b = 0 then FZeroDivision else FValue (Finite (of_int \<lfloor>a / b\<rfloor>)))"
| "ideal_arith Mod (Finite a) (Finite b) =
     (if b = 0 then FZeroDivision else FValue (Finite (a - b * of_int \<lfloor>a / b\<rfloor>)))"
| "ideal_arith Pow (Finite a) (Finite b) =
     (if b = of_int \<lfloor>b\<rfloor> then
        (if a = 0 \<and> b < 0 then FZeroDivision else FValue (Finite (a powi \<lfloor>b\<rfloor>)))
      else if a < 0 then FComplex else FValue NotANumber)"
| "ideal_arith f a b = FValue NotANumber"

fun ideal_value :: "ideal_float num \<Rightarrow> rat option" where
  "ideal_value (PInt i) = Some (of_int i)"
| "ideal_value (PBool b) = Some (if b then 1 else 0)"
| "ideal_value (PFloat (Finite q)) = Some q"
| "ideal_value (PFloat x) = None"

definition ideal_compare :: "opfun \<Rightarrow> ideal_float num \<Rightarrow> ideal_float num \<Rightarrow> bool" where
  "ideal_compare f l r =
     (case (ideal_value l, ideal_value r) of
        (Some a, Some b) \<Rightarrow>
          (if f = Lt then a < b else if f = Le then a \<le> b else if f = Gt then a > b
           else if f = Ge then a \<ge> b else if f = Eq then a = b else a \<noteq> b)
      | _ \<Rightarrow> f = Ne)"

definition ideal :: "ideal_float pyenv" where
  "ideal = \<lparr>int_max_str_digits = Some 3660, nearest = Finite, float_neg = ideal_neg,
            float_inf = PlusInf, float_nan = NotANumber,
            float_is_zero = (\<lambda>x. x = Finite 0), float_arith = ideal_arith,
            float_compare = ideal_compare\<rparr>"

section \<open>Invariants of the forward scan\<close>

fun is_num :: "'f token \<Rightarrow> bool" where
  "is_num (TNum n) = True"
| "is_num (TStr s) = False"

text \<open>Between two tokens no entry of the count stack is 0: each is 1 or 2.\<close>

definition settled :: "int list \<Rightarrow> bool" where
  "settled cs = (\<forall>c \<in> set cs. c = 1 \<or> c = 2)"

text \<open>
  The two stacks fit together: an entry \<open>c\<close> of the count stack stands for an operator
  of the table on the token stack with \<open>2 - c\<close> numbers above it; below the last such
  operator the token stack holds numbers only.
\<close>

fun stacks_inv :: "'f token list \<Rightarrow> int list \<Rightarrow> bool" where
  "stacks_inv ts [] = list_all is_num ts"
| "stacks_inv ts (c # cs) =
     (0 \<le> c \<and> c \<le> 2 \<and> nat (2 - c) < length ts \<and> list_all is_num (take (nat (2 - c)) ts)
      \<and> in_opcodes (ts ! nat (2 - c)) \<and> settled cs \<and> stacks_inv (drop (Suc (nat (2 - c))) ts) cs)"

text \<open>
  The pairs of stacks that the loop of \<^verbatim>\<open>_eval_expr\<close> passes through: it starts with two
  empty stacks, takes a token when the \<^verbatim>\<open>while\<close> loop has nothing to do, and runs the
  body of the \<^verbatim>\<open>while\<close> loop when the top count is 0.
\<close>

inductive visited :: "'f pyenv \<Rightarrow> 'f token iterable \<Rightarrow> 'f token list \<Rightarrow> int list \<Rightarrow> bool"
  for env :: "'f pyenv" and tokens :: "'f token iterable" where
  start: "visited env tokens [] []"
| token: "visited env tokens ts cs \<Longrightarrow> cs = [] \<or> hd cs \<noteq> 0
     \<Longrightarrow> take_token tokens tok rest ts cs = Inr (exhausted, ts', cs')
     \<Longrightarrow> visited env tokens ts' cs'"
| reduction: "visited env tokens ts (0 # cs) \<Longrightarrow> reduce env ts = Inr ts'
     \<Longrightarrow> visited env tokens ts' (dec_top cs)"

section \<open>A reference semantics of prefix expressions\<close>

text \<open>
  A second definition, following the words of the specification and not the code: a
  valid prefix expression is a number, or an operator of the table followed by two valid
  expressions; its value applies the operator to the values of the two, left operand
  first. The evaluators are compared with it.
\<close>

datatype 'f spec_expr = Operand "'f num" | Binary string "'f spec_expr" "'f spec_expr"

fun prefix_form :: "'f spec_expr \<Rightarrow> 'f token list" where
  "prefix_form (Operand n) = [TNum n]"
| "prefix_form (Binary s l r) = TStr s # prefix_form l @ prefix_form r"

fun spec_value :: "'f pyenv \<Rightarrow> 'f spec_expr \<Rightarrow> py_error + 'f num" where
  "spec_value env (Operand n) = Inr n"
| "spec_value env (Binary s l r) =
     (case map_of OPCODES s of
        None \<Rightarrow> Inl (Builtin KeyError)
      | Some f \<Rightarrow>
          (case spec_value env l of
             Inl e \<Rightarrow> Inl e
           | Inr a \<Rightarrow>
               (case spec_value env r of
                  Inl e \<Rightarrow> Inl e
                | Inr b \<Rightarrow> py_operator env f a b)))"

text \<open>
  What an entry of the token stack stands for, among the tokens read so far: an operator
  for itself, a number for the tokens of an expression with this value.
\<close>

fun denotes :: "'f pyenv \<Rightarrow> 'f token \<Rightarrow> 'f token list \<Rightarrow> bool" where
  "denotes env (TStr s) seg = (seg = [TStr s])"
| "denotes env (TNum v) seg = (\<exists>e. seg = prefix_form e \<and> spec_value env e = Inr v)"

text \<open>The entries of the token stack, bottom first, stand for the tokens read so far.\<close>

definition consumed :: "'f pyenv \<Rightarrow> 'f token list \<Rightarrow> 'f token list \<Rightarrow> bool" where
  "consumed env p ts = (\<exists>segs. list_all2 (denotes env) ts segs \<and> concat (rev segs) = p)"

section \<open>Facts about the built-ins and the tokenizer\<close>






lemma py_int_error: "py_int env s = Inl e \<Longrightarrow> e = Builtin ValueError"
  by (auto simp: py_int_def Let_def split: option.splits prod.splits if_splits)

lemma py_float_error: "py_float env s = Inl e \<Longrightarrow> e = Builtin ValueError"
  by (auto simp: py_float_def Let_def split: option.splits prod.splits if_splits)





lemma classify_token:
  "classify env t = Inr tok \<Longrightarrow> (tok = TStr t \<and> in_opcodes tok) \<or> (\<exists>n. tok = TNum n)"
  by (auto simp: classify_def int_token_def float_token_def split: if_splits sum.splits)

lemma classify_error: "classify env t = Inl e \<Longrightarrow> e = invalid_symbol t"
  by (auto simp: classify_def int_token_def float_token_def split: if_splits sum.splits
           dest: py_int_error py_float_error)

lemma invalid_symbol_neq:
  "invalid_symbol t \<noteq> Raise ValueError ''Invalid operator seen.''"
  "invalid_symbol t \<noteq> Raise KeyError msg"
  "invalid_symbol t \<noteq> Builtin c"
  "invalid_symbol t \<noteq> Unmodelled"
  "invalid_symbol t \<noteq> Raise ValueError ''Invalid expression.''"
  by (simp_all add: invalid_symbol_def)

lemma py_list_classify_error:
  "py_list (map (classify env) ws) = Inl e \<Longrightarrow> \<exists>t. e = invalid_symbol t"
proof (induction ws)
  case Nil
  then show ?case by simp
next
  case (Cons w ws)
  then show ?case
    by (cases "classify env w") (auto split: sum.splits dest: classify_error)
qed

lemma tokenize_words_outcomes:
  "x \<in> set (tokenize_words env ws) \<Longrightarrow> \<exists>w \<in> set ws. x = classify env w"
  by (induction ws) (auto split: sum.splits)

lemma py_list_tokenize_words:
  "py_list (tokenize_words env ws) = py_list (map (classify env) ws)"
  by (induction ws) (auto split: sum.splits)

subsection \<open>The exceptions an operator of the table can raise\<close>

lemma float_operator_error:
  "float_operator env f l r = Inl e
     \<Longrightarrow> e = Builtin ZeroDivisionError \<or> e = Builtin OverflowError \<or> e = Unmodelled"
  by (cases l; cases r)
     (auto simp: float_operator_def split: sum.splits if_splits float_result.splits)

lemma int_operator_error:
  "int_operator env f i j = Inl e
     \<Longrightarrow> e = Builtin ZeroDivisionError \<or> e = Builtin OverflowError \<or> e = Unmodelled"
  by (cases f) (auto split: if_splits dest: float_operator_error)

lemma py_operator_error:
  "py_operator env f l r = Inl e
     \<Longrightarrow> e = Builtin ZeroDivisionError \<or> e = Builtin OverflowError \<or> e = Unmodelled"
  by (auto simp: py_operator_def split: option.splits if_splits
           dest: float_operator_error int_operator_error)

lemma eval_op_error:
  "eval_op env lhs rhs tok = Inl e \<Longrightarrow> in_opcodes tok
     \<Longrightarrow> e = Builtin ZeroDivisionError \<or> e = Builtin OverflowError \<or> e = Unmodelled"
  by (auto simp: eval_op_def in_opcodes_def split: option.splits token.splits sum.splits
           dest: py_operator_error)

section \<open>Facts about the stack engine of \<^verbatim>\<open>eval_rpn.py\<close>\<close>

lemma rpn_apply_error:
  "rpn_apply env swap_func tok operands = Inl e \<Longrightarrow> in_opcodes tok
     \<Longrightarrow> e = Raise IndexError ''Invalid expression.''
       \<or> e = Raise ZeroDivisionError ''Can not divide by zero.''
       \<or> e = Builtin OverflowError \<or> e = Unmodelled"
  by (auto simp: rpn_apply_def rpn_reraise_def split: list.splits prod.splits sum.splits
           dest!: eval_op_error)

lemma rpn_loop_classify_error:
  "rpn_loop env swap_func (map (classify env) ws) operands = Inl e
     \<Longrightarrow> (\<exists>t. e = invalid_symbol t)
       \<or> e = Raise IndexError ''Invalid expression.''
       \<or> e = Raise ZeroDivisionError ''Can not divide by zero.''
       \<or> e = Builtin OverflowError \<or> e = Unmodelled"
proof (induction ws arbitrary: operands)
  case Nil
  then show ?case by simp
next
  case (Cons w ws)
  show ?case
  proof (cases "classify env w")
    case (Inl e')
    with Cons.prems show ?thesis by (auto dest: classify_error)
  next
    case (Inr tok)
    show ?thesis
    proof (cases "in_opcodes tok")
      case True
      show ?thesis
      proof (cases "rpn_apply env swap_func tok operands")
        case (Inl e')
        with Cons.prems Inr True have "e' = e" by simp
        with Inl True show ?thesis using rpn_apply_error by blast
      next
        case (Inr operands')
        with Cons.prems \<open>classify env w = Inr tok\<close> True
        have "rpn_loop env swap_func (map (classify env) ws) operands' = Inl e" by simp
        then show ?thesis by (rule Cons.IH)
      qed
    next
      case False
      with Cons.prems Inr
      have "rpn_loop env swap_func (map (classify env) ws) (tok # operands) = Inl e" by simp
      then show ?thesis by (rule Cons.IH)
    qed
  qed
qed

lemma rpn_loop_tokenize_words:
  "rpn_loop env swap_func (tokenize_words env ws) operands
     = rpn_loop env swap_func (map (classify env) ws) operands"
  by (induction ws arbitrary: operands) (auto split: sum.splits)

lemma rpn_eval_prefix_expr_raises: "rpn_eval_prefix_expr env expr = Inl (Builtin TypeError)"
  by (simp add: rpn_eval_prefix_expr_def tokenize_expr_def)

section \<open>Facts about the forward scan of \<^verbatim>\<open>eval_prefix.py\<close>\<close>

lemma stacks_inv_push_num:
  assumes "stacks_inv ts cs" "settled cs"
  shows "stacks_inv (TNum n # ts) (dec_top cs)"
proof (cases cs)
  case Nil
  with assms show ?thesis by simp
next
  case (Cons c cs')
  with assms have "c = 1 \<or> c = 2" by (simp add: settled_def)
  with assms Cons show ?thesis by (auto simp: settled_def numeral_2_eq_2)
qed

lemma stacks_inv_push_op:
  assumes "stacks_inv ts cs" "settled cs" "in_opcodes tok"
  shows "stacks_inv (tok # ts) (2 # cs)"
  using assms by simp

lemma take_token_inv:
  assumes "stacks_inv ts cs" "settled cs"
    and "take_token tokens tok rest ts cs = Inr (ex, ts', cs')"
  shows "stacks_inv ts' cs'"
proof (cases tok)
  case (TNum n)
  with assms(3) have "ts' = TNum n # ts" "cs' = dec_top cs"
    by (auto simp: take_token_def split: if_splits iterable.splits sum.splits)
  with assms(1,2) show ?thesis by (simp add: stacks_inv_push_num)
next
  case (TStr s)
  with assms(3) have "ts' = tok # ts" "cs' = 2 # cs" "in_opcodes tok"
    by (auto simp: take_token_def split: if_splits)
  with assms(1,2) show ?thesis by (simp add: stacks_inv_push_op)
qed

lemma stacks_inv_top_zero:
  assumes "stacks_inv ts (0 # cs)"
  obtains r l s rest where "ts = TNum r # TNum l # TStr s # rest" "map_of OPCODES s \<noteq> None"
    "stacks_inv rest cs" "settled cs"
proof -
  from assms have len: "2 < length ts" by simp
  then obtain a b c rest where ts: "ts = a # b # c # rest"
    by (cases ts; cases "tl ts"; cases "tl (tl ts)") auto
  with assms have "is_num a" "is_num b" "in_opcodes c" "stacks_inv rest cs" "settled cs"
    by (simp_all add: numeral_2_eq_2 numeral_3_eq_3)
  moreover from \<open>in_opcodes c\<close> obtain s where "c = TStr s"
    by (cases c) (simp_all add: in_opcodes_def)
  moreover from \<open>is_num a\<close> obtain r where "a = TNum r" by (cases a) simp_all
  moreover from \<open>is_num b\<close> obtain l where "b = TNum l" by (cases b) simp_all
  ultimately show ?thesis
    using ts that by (auto simp: in_opcodes_def simp del: stacks_inv.simps)
qed

lemma reduce_inv:
  assumes "stacks_inv ts (0 # cs)" "reduce env ts = Inr ts'"
  shows "stacks_inv ts' (dec_top cs)"
proof -
  from assms(1) obtain r l s rest where ts: "ts = TNum r # TNum l # TStr s # rest"
    and "map_of OPCODES s \<noteq> None" "stacks_inv rest cs" "settled cs"
    by (rule stacks_inv_top_zero)
  with assms(2) obtain v where "ts' = TNum v # rest"
    by (auto simp: reduce_def eval_op_def in_opcodes_def split: sum.splits option.splits)
  with \<open>stacks_inv rest cs\<close> \<open>settled cs\<close> show ?thesis by (simp add: stacks_inv_push_num)
qed

lemma reduce_error:
  assumes "stacks_inv ts (0 # cs)" "reduce env ts = Inl e"
  shows "e = Raise ValueError ''Can not divide by zero.'' \<or> e = Builtin OverflowError
           \<or> e = Unmodelled"
proof -
  from assms(1) obtain r l s rest where ts: "ts = TNum r # TNum l # TStr s # rest"
    and "map_of OPCODES s \<noteq> None"
    by (rule stacks_inv_top_zero)
  with assms(2) show ?thesis
    by (auto simp: reduce_def eval_op_def in_opcodes_def prefix_reraise_def
             split: sum.splits option.splits dest!: py_operator_error)
qed

lemma stacks_inv_settled:
  "stacks_inv ts cs \<Longrightarrow> cs = [] \<or> hd cs \<noteq> 0 \<Longrightarrow> settled cs"
  by (cases cs) (auto simp: settled_def)

lemma cascade_inv:
  "stacks_inv ts cs \<Longrightarrow> cascade env ts cs = Inr (ts', cs') \<Longrightarrow> stacks_inv ts' cs' \<and> settled cs'"
proof (induction env ts cs rule: cascade.induct)
  case (1 env ts)
  then show ?case by (simp add: settled_def)
next
  case (2 env ts c cs)
  show ?case
  proof (cases "c = 0")
    case True
    with "2.prems" obtain ts1 where r: "reduce env ts = Inr ts1"
      and c: "cascade env ts1 (dec_top cs) = Inr (ts', cs')"
      by (auto split: sum.splits)
    from "2.prems"(1) True r have "stacks_inv ts1 (dec_top cs)" by (simp only: reduce_inv)
    with "2.IH" True r c show ?thesis by simp
  next
    case False
    with "2.prems" have "ts' = ts" "cs' = c # cs" by simp_all
    with "2.prems"(1) False show ?thesis using stacks_inv_settled [of ts "c # cs"] by simp
  qed
qed

lemma cascade_error:
  "stacks_inv ts cs \<Longrightarrow> cascade env ts cs = Inl e
     \<Longrightarrow> e = Raise ValueError ''Can not divide by zero.'' \<or> e = Builtin OverflowError
       \<or> e = Unmodelled"
proof (induction env ts cs rule: cascade.induct)
  case (1 env ts)
  then show ?case by simp
next
  case (2 env ts c cs)
  show ?case
  proof (cases "c = 0")
    case True
    show ?thesis
    proof (cases "reduce env ts")
      case (Inl e')
      with "2.prems" True have "e' = e" by simp
      with "2.prems"(1) True Inl show ?thesis using reduce_error by blast
    next
      case (Inr ts1)
      with "2.prems" True have c: "cascade env ts1 (dec_top cs) = Inl e" by simp
      from "2.prems"(1) True Inr have "stacks_inv ts1 (dec_top cs)" by (simp only: reduce_inv)
      with "2.IH" True Inr c show ?thesis by simp
    qed
  next
    case False
    with "2.prems" show ?thesis by simp
  qed
qed

lemma prefix_loop_inv:
  "stacks_inv ts cs \<Longrightarrow> settled cs \<Longrightarrow> prefix_loop env tokens s ts cs = Inr (ts', cs')
     \<Longrightarrow> stacks_inv ts' cs' \<and> settled cs'"
proof (induction s arbitrary: ts cs)
  case Nil
  then show ?case by simp
next
  case (Cons x s)
  from Cons.prems(3) obtain tok where x: "x = Inr tok" by (cases x) simp_all
  with Cons.prems(3) obtain ex ts1 cs1 ts2 cs2
    where tt: "take_token tokens tok s ts cs = Inr (ex, ts1, cs1)"
      and ca: "cascade env ts1 cs1 = Inr (ts2, cs2)"
      and lp: "prefix_loop env tokens (if ex then [] else s) ts2 cs2 = Inr (ts', cs')"
    by (auto split: sum.splits prod.splits)
  from Cons.prems(1,2) tt have "stacks_inv ts1 cs1" by (rule take_token_inv)
  from this ca have inv2: "stacks_inv ts2 cs2 \<and> settled cs2" by (rule cascade_inv)
  show ?case
  proof (cases ex)
    case True
    with lp inv2 show ?thesis by simp
  next
    case False
    with lp have "prefix_loop env tokens s ts2 cs2 = Inr (ts', cs')" by simp
    with inv2 show ?thesis using Cons.IH [of ts2 cs2] by simp
  qed
qed

lemma take_token_classify_error:
  assumes "take_token tokens tok (map (classify env) ws) ts cs = Inl e"
    and "is_num tok \<or> in_opcodes tok"
  shows "(\<exists>t. e = invalid_symbol t) \<or> e = Raise ValueError ''Invalid expression.''"
  using assms
  by (cases tok)
     (auto simp: take_token_def split: if_splits iterable.splits sum.splits
           dest: py_list_classify_error)

lemma prefix_loop_classify_error:
  "stacks_inv ts cs \<Longrightarrow> settled cs
     \<Longrightarrow> prefix_loop env tokens (map (classify env) ws) ts cs = Inl e
     \<Longrightarrow> (\<exists>t. e = invalid_symbol t) \<or> e = Raise ValueError ''Invalid expression.''
       \<or> e = Raise ValueError ''Can not divide by zero.'' \<or> e = Builtin OverflowError
       \<or> e = Unmodelled"
proof (induction ws arbitrary: ts cs)
  case Nil
  then show ?case by simp
next
  case (Cons w ws)
  show ?case
  proof (cases "classify env w")
    case (Inl e')
    with Cons.prems(3) show ?thesis by (auto dest: classify_error)
  next
    case (Inr tok)
    then have tok: "is_num tok \<or> in_opcodes tok" by (auto dest: classify_token)
    show ?thesis
    proof (cases "take_token tokens tok (map (classify env) ws) ts cs")
      case (Inl e')
      with Cons.prems(3) Inr have "e' = e" by simp
      with Inl tok show ?thesis using take_token_classify_error by blast
    next
      case tt: (Inr res)
      obtain ex ts1 cs1 where res: "res = (ex, ts1, cs1)" by (cases res)
      from Cons.prems(1,2) tt res have inv1: "stacks_inv ts1 cs1" by (simp add: take_token_inv)
      show ?thesis
      proof (cases "cascade env ts1 cs1")
        case (Inl e')
        with Cons.prems(3) Inr tt res have "e' = e" by simp
        with Inl inv1 show ?thesis using cascade_error by blast
      next
        case ca: (Inr res2)
        obtain ts2 cs2 where res2: "res2 = (ts2, cs2)" by (cases res2)
        from inv1 ca res2 have inv2: "stacks_inv ts2 cs2 \<and> settled cs2" by (simp add: cascade_inv)
        from Cons.prems(3) Inr tt res ca res2
        have lp: "prefix_loop env tokens (if ex then [] else map (classify env) ws) ts2 cs2 = Inl e"
          by simp
        show ?thesis
        proof (cases ex)
          case True
          with lp show ?thesis by simp
        next
          case False
          with lp have "prefix_loop env tokens (map (classify env) ws) ts2 cs2 = Inl e" by simp
          with inv2 show ?thesis using Cons.IH [of ts2 cs2] by simp
        qed
      qed
    qed
  qed
qed

lemma take_token_tokenize_words:
  "take_token tokens tok (tokenize_words env ws) ts cs
     = take_token tokens tok (map (classify env) ws) ts cs"
  by (cases tok; cases tokens) (simp_all add: take_token_def py_list_tokenize_words)

lemma prefix_loop_tokenize_words:
  "prefix_loop env tokens (tokenize_words env ws) ts cs
     = prefix_loop env tokens (map (classify env) ws) ts cs"
proof (induction ws arbitrary: ts cs)
  case Nil
  show ?case by simp
next
  case (Cons w ws)
  show ?case
  proof (cases "classify env w")
    case (Inl e)
    then show ?thesis by simp
  next
    case (Inr tok)
    then show ?thesis
      using Cons.IH
      by (auto simp: take_token_tokenize_words split: sum.splits prod.splits)
  qed
qed

lemma visited_stacks_inv: "visited env tokens ts cs \<Longrightarrow> stacks_inv ts cs"
proof (induction rule: visited.induct)
  case start
  show ?case by simp
next
  case (token ts cs tok rest exhausted ts' cs')
  from token.IH token.hyps(2) have "settled cs" by (rule stacks_inv_settled)
  with token.IH token.hyps(3) show ?case using take_token_inv by blast
next
  case (reduction ts cs ts')
  then show ?case by (simp only: reduce_inv)
qed

lemma stacks_inv_counts:
  "stacks_inv ts cs \<Longrightarrow> (\<forall>c \<in> set cs. c = 0 \<or> c = 1 \<or> c = 2) \<and> settled (tl cs)"
  by (cases cs) (auto simp: settled_def)

lemma cascade_visited:
  "visited env tokens ts cs \<Longrightarrow> cascade env ts cs = Inr (ts', cs')
     \<Longrightarrow> visited env tokens ts' cs' \<and> (cs' = [] \<or> hd cs' \<noteq> 0)"
proof (induction env ts cs rule: cascade.induct)
  case (1 env ts)
  then show ?case by simp
next
  case (2 env ts c cs)
  show ?case
  proof (cases "c = 0")
    case True
    with "2.prems" obtain ts1 where r: "reduce env ts = Inr ts1"
      and c: "cascade env ts1 (dec_top cs) = Inr (ts', cs')"
      by (auto split: sum.splits)
    from "2.prems"(1) True r have "visited env tokens ts1 (dec_top cs)"
      by (simp add: visited.reduction)
    with "2.IH" True r c show ?thesis by simp
  next
    case False
    with "2.prems" show ?thesis by auto
  qed
qed

lemma prefix_loop_visited:
  "visited env tokens ts cs \<Longrightarrow> cs = [] \<or> hd cs \<noteq> 0
     \<Longrightarrow> prefix_loop env tokens s ts cs = Inr (ts', cs')
     \<Longrightarrow> visited env tokens ts' cs' \<and> (cs' = [] \<or> hd cs' \<noteq> 0)"
proof (induction s arbitrary: ts cs)
  case Nil
  then show ?case by simp
next
  case (Cons x s)
  from Cons.prems(3) obtain tok where x: "x = Inr tok" by (cases x) simp_all
  with Cons.prems(3) obtain ex ts1 cs1 ts2 cs2
    where tt: "take_token tokens tok s ts cs = Inr (ex, ts1, cs1)"
      and ca: "cascade env ts1 cs1 = Inr (ts2, cs2)"
      and lp: "prefix_loop env tokens (if ex then [] else s) ts2 cs2 = Inr (ts', cs')"
    by (auto split: sum.splits prod.splits)
  from Cons.prems(1,2) tt have "visited env tokens ts1 cs1" by (rule visited.token)
  from this ca have v2: "visited env tokens ts2 cs2 \<and> (cs2 = [] \<or> hd cs2 \<noteq> 0)"
    by (rule cascade_visited)
  show ?case
  proof (cases ex)
    case True
    with lp v2 show ?thesis by simp
  next
    case False
    with lp have "prefix_loop env tokens s ts2 cs2 = Inr (ts', cs')" by simp
    with v2 show ?thesis using Cons.IH [of ts2 cs2] by simp
  qed
qed

section \<open>Running the evaluators on the expressions of the test tables\<close>

lemmas tokenizer_defs = tokenize_expr_def py_split_def classify_def in_opcodes_def OPCODES_def
  int_token_def float_token_def py_int_def py_float_def split_sign_def is_digit_def digit_of_def
  digits_value_def is_space_def decimal_value_def exponent_of_def lower_def invalid_symbol_def

lemmas rpn_defs = rpn_eval_expr_def rpn_apply_def postfix_swap_def prefix_swap_def eval_op_def
  py_operator_def float_operator_def is_compare_def is_division_def rpn_reraise_def
  in_opcodes_def OPCODES_def

lemmas prefix_defs = prefix_eval_expr_def take_token_def reduce_def eval_op_def py_operator_def
  float_operator_def is_compare_def is_division_def prefix_reraise_def in_opcodes_def OPCODES_def

lemma tokens_empty: "tokenize_expr env '''' = Generator []"
  by (simp add: tokenizer_defs)

lemma tokens_3_4_plus:
  "tokenize_expr env ''3 4 +'' = Generator [Inr (TNum (PInt 3)), Inr (TNum (PInt 4)), Inr (TStr ''+'')]"
  by (simp add: tokenizer_defs split: option.split)

lemma tokens_plus_3_4:
  "tokenize_expr env ''+ 3 4'' = Generator [Inr (TStr ''+''), Inr (TNum (PInt 3)), Inr (TNum (PInt 4))]"
  by (simp add: tokenizer_defs split: option.split)

lemma tokens_postfix_625:
  "tokenize_expr env ''10 5 * 6 2 + /'' =
     Generator [Inr (TNum (PInt 10)), Inr (TNum (PInt 5)), Inr (TStr ''*''), Inr (TNum (PInt 6)),
                Inr (TNum (PInt 2)), Inr (TStr ''+''), Inr (TStr ''/'')]"
  by (simp add: tokenizer_defs split: option.split)

lemma tokens_prefix_625:
  "tokenize_expr env ''/ * 10 5 + 6 2'' =
     Generator [Inr (TStr ''/''), Inr (TStr ''*''), Inr (TNum (PInt 10)), Inr (TNum (PInt 5)),
                Inr (TStr ''+''), Inr (TNum (PInt 6)), Inr (TNum (PInt 2))]"
  by (simp add: tokenizer_defs split: option.split)

lemma tokens_postfix_m3:
  "tokenize_expr env ''10 7 2 3 * + -'' =
     Generator [Inr (TNum (PInt 10)), Inr (TNum (PInt 7)), Inr (TNum (PInt 2)), Inr (TNum (PInt 3)),
                Inr (TStr ''*''), Inr (TStr ''+''), Inr (TStr ''-'')]"
  by (simp add: tokenizer_defs split: option.split)

lemma tokens_prefix_m3:
  "tokenize_expr env ''- 10 + 7 * 2 3'' =
     Generator [Inr (TStr ''-''), Inr (TNum (PInt 10)), Inr (TStr ''+''), Inr (TNum (PInt 7)),
                Inr (TStr ''*''), Inr (TNum (PInt 2)), Inr (TNum (PInt 3))]"
  by (simp add: tokenizer_defs split: option.split)

lemma not_too_large: "\<not> too_large_for_float (50 / 8)"
  by (simp add: too_large_for_float_def)

lemma postfix_7: "eval_postfix_expr env ''3 4 +'' = Inr (TNum (PInt 7))"
  by (simp add: eval_postfix_expr_def tokens_3_4_plus rpn_defs)

lemma prefix_7: "eval_prefix_expr env ''+ 3 4'' = Inr (TNum (PInt 7))"
  by (simp add: eval_prefix_expr_def tokens_plus_3_4 prefix_defs)

lemma postfix_625: "eval_postfix_expr env ''10 5 * 6 2 + /'' = Inr (TNum (PFloat (nearest env (25 / 4))))"
  using not_too_large by (simp add: eval_postfix_expr_def tokens_postfix_625 rpn_defs)

lemma prefix_625: "eval_prefix_expr env ''/ * 10 5 + 6 2'' = Inr (TNum (PFloat (nearest env (25 / 4))))"
  using not_too_large by (simp add: eval_prefix_expr_def tokens_prefix_625 prefix_defs)

lemma postfix_m3: "eval_postfix_expr env ''10 7 2 3 * + -'' = Inr (TNum (PInt (- 3)))"
  by (simp add: eval_postfix_expr_def tokens_postfix_m3 rpn_defs)

lemma prefix_m3: "eval_prefix_expr env ''- 10 + 7 * 2 3'' = Inr (TNum (PInt (- 3)))"
  by (simp add: eval_prefix_expr_def tokens_prefix_m3 prefix_defs)

lemma postfix_empty: "eval_postfix_expr env '''' = Inl (Raise ValueError ''Invalid expression.'')"
  by (simp add: eval_postfix_expr_def tokens_empty rpn_defs)

lemma tokens_3_4:
  "tokenize_expr env ''3 4'' = Generator [Inr (TNum (PInt 3)), Inr (TNum (PInt 4))]"
  by (simp add: tokenizer_defs split: option.split)

lemma tokens_3_4_5:
  "tokenize_expr env ''3 4 5'' = Generator [Inr (TNum (PInt 3)), Inr (TNum (PInt 4)), Inr (TNum (PInt 5))]"
  by (simp add: tokenizer_defs split: option.split)

lemma tokens_plus: "tokenize_expr env ''+'' = Generator [Inr (TStr ''+'')]"
  by (simp add: tokenizer_defs split: option.split)

lemma tokens_plus_1_2_3:
  "tokenize_expr env '' + 1 2 3'' =
     Generator [Inr (TStr ''+''), Inr (TNum (PInt 1)), Inr (TNum (PInt 2)), Inr (TNum (PInt 3))]"
  by (simp add: tokenizer_defs split: option.split)

lemma tokens_1_2_3_plus:
  "tokenize_expr env ''1 2 3 +'' =
     Generator [Inr (TNum (PInt 1)), Inr (TNum (PInt 2)), Inr (TNum (PInt 3)), Inr (TStr ''+'')]"
  by (simp add: tokenizer_defs split: option.split)


lemma tokens_102_0_div:
  "tokenize_expr env ''102 0 /'' = Generator [Inr (TNum (PInt 102)), Inr (TNum (PInt 0)), Inr (TStr ''/'')]"
  by (simp add: tokenizer_defs split: option.split)

lemma tokens_div_102_0:
  "tokenize_expr env ''/ 102 0'' = Generator [Inr (TStr ''/''), Inr (TNum (PInt 102)), Inr (TNum (PInt 0))]"
  by (simp add: tokenizer_defs split: option.split)

lemma tokens_huge:
  "tokenize_expr env ''10 400 ^ 0.0 /'' =
     Generator [Inr (TNum (PInt 10)), Inr (TNum (PInt 400)), Inr (TStr ''^''),
                Inr (TNum (PFloat (nearest env 0))), Inr (TStr ''/'')]"
  by (simp add: tokenizer_defs split: option.split)

lemma tokens_huge_prefix:
  "tokenize_expr env ''/ ^ 10 400 0.0'' =
     Generator [Inr (TStr ''/''), Inr (TStr ''^''), Inr (TNum (PInt 10)), Inr (TNum (PInt 400)),
                Inr (TNum (PFloat (nearest env 0)))]"
  by (simp add: tokenizer_defs split: option.split)

lemma prefix_3_4: "eval_prefix_expr env ''3 4'' = Inr (TNum (PInt 3))"
  by (simp add: eval_prefix_expr_def tokens_3_4 prefix_defs)

lemma prefix_3_4_5: "eval_prefix_expr env ''3 4 5'' = Inl (Raise ValueError ''Invalid expression.'')"
  by (simp add: eval_prefix_expr_def tokens_3_4_5 prefix_defs)

lemma prefix_plus: "eval_prefix_expr env ''+'' = Inl (Raise ValueError ''Invalid expression.'')"
  by (simp add: eval_prefix_expr_def tokens_plus prefix_defs)

lemma prefix_plus_1_2_3: "eval_prefix_expr env '' + 1 2 3'' = Inl (Raise ValueError ''Invalid expression.'')"
  by (simp add: eval_prefix_expr_def tokens_plus_1_2_3 prefix_defs)

lemma postfix_1_2_3_plus: "eval_postfix_expr env ''1 2 3 +'' = Inl (Raise ValueError ''Invalid expression.'')"
  by (simp add: eval_postfix_expr_def tokens_1_2_3_plus rpn_defs)



lemma postfix_102_0_div:
  "eval_postfix_expr env ''102 0 /'' = Inl (Raise ZeroDivisionError ''Can not divide by zero.'')"
  by (simp add: eval_postfix_expr_def tokens_102_0_div rpn_defs)

lemma prefix_div_102_0:
  "eval_prefix_expr env ''/ 102 0'' = Inl (Raise ValueError ''Can not divide by zero.'')"
  by (simp add: eval_prefix_expr_def tokens_div_102_0 prefix_defs)

lemma huge: "too_large_for_float (of_int (10 ^ 400))"
  by (simp add: too_large_for_float_def)

lemma postfix_huge: "eval_postfix_expr env ''10 400 ^ 0.0 /'' = Inl (Builtin OverflowError)"
  using huge by (simp add: eval_postfix_expr_def tokens_huge rpn_defs)

lemma prefix_huge: "eval_prefix_expr env ''/ ^ 10 400 0.0'' = Inl (Builtin OverflowError)"
  using huge by (simp add: eval_prefix_expr_def tokens_huge_prefix prefix_defs)

lemma prefix_empty: "eval_prefix_expr env '''' = Inl (Raise ValueError ''Invalid expression.'')"
  by (simp add: eval_prefix_expr_def tokens_empty prefix_defs)



lemma rpn_loop_operator:
  "in_opcodes tok \<Longrightarrow>
     rpn_loop env postfix_swap (Inr tok # rest) (a # b # stack) =
       (case eval_op env b a tok of
          Inl e \<Rightarrow> Inl (rpn_reraise e)
        | Inr v \<Rightarrow> rpn_loop env postfix_swap rest (v # stack))"
  by (simp add: rpn_apply_def postfix_swap_def split: sum.splits)

lemma rpn_loop_too_few:
  "in_opcodes tok \<Longrightarrow> length stack < 2 \<Longrightarrow>
     rpn_loop env swap_func (Inr tok # rest) stack = Inl (Raise IndexError ''Invalid expression.'')"
  by (cases stack; cases "tl stack") (simp_all add: rpn_apply_def rpn_reraise_def)

lemma rpn_eval_expr_too_many:
  "rpn_loop env swap_func (iter tokens) [] = Inr stack \<Longrightarrow> 1 < length stack \<Longrightarrow>
     rpn_eval_expr env tokens swap_func = Inl (Raise ValueError ''Invalid expression.'')"
  by (simp add: rpn_eval_expr_def)

lemma rpn_loop_1_2_3_plus:
  "rpn_loop env postfix_swap (iter (tokenize_expr env ''1 2 3 +'')) []
     = Inr [TNum (PInt 5), TNum (PInt 1)]"
  by (simp add: tokens_1_2_3_plus rpn_defs)

lemma prefix_leading_number_generator:
  "py_list rest = Inr following \<Longrightarrow>
     prefix_eval_expr env (Generator (Inr (TNum n) # rest)) =
       (if 1 < length following then Inl (Raise ValueError ''Invalid expression.'')
        else Inr (TNum n))"
  by (simp add: prefix_eval_expr_def take_token_def)

lemma prefix_leading_number_generator_error:
  "py_list rest = Inl e \<Longrightarrow> prefix_eval_expr env (Generator (Inr (TNum n) # rest)) = Inl e"
  by (simp add: prefix_eval_expr_def take_token_def)

lemma prefix_leading_number_list:
  "prefix_eval_expr env (PyList (TNum n # xs)) =
     (if xs \<noteq> [] then Inl (Raise ValueError ''Invalid expression.'') else Inr (TNum n))"
  by (simp add: prefix_eval_expr_def take_token_def)

lemma not_too_large_small [simp]:
  "\<not> too_large_for_float 0" "\<not> too_large_for_float 1"
  by (simp_all add: too_large_for_float_def)

lemma int_operator_division_by_zero:
  "is_division f \<Longrightarrow> int_operator env f i 0 = Inl (Builtin ZeroDivisionError)"
  by (cases f) (simp_all add: is_division_def)

lemma float_operator_division_by_zero:
  "is_division f \<Longrightarrow> num_is_zero env r \<Longrightarrow> to_double env l \<noteq> Inl (Builtin OverflowError)
     \<Longrightarrow> float_operator env f l r = Inl (Builtin ZeroDivisionError)"
  by (cases l; cases r) (auto simp: float_operator_def split: sum.splits)

lemma to_double_int_like: "as_int r \<noteq> None \<Longrightarrow> num_is_zero env r \<Longrightarrow> as_int r = Some 0"
  by (cases r) auto

lemma py_operator_division_by_zero:
  assumes "is_division f" "num_is_zero env r"
    and "as_int r \<noteq> None \<or> to_double env l \<noteq> Inl (Builtin OverflowError)"
  shows "py_operator env f l r = Inl (Builtin ZeroDivisionError)"
proof (cases "as_int l \<noteq> None \<and> as_int r \<noteq> None")
  case True
  with assms(2) have "as_int r = Some 0" by (simp add: to_double_int_like)
  with True assms(1) show ?thesis
    by (auto simp: py_operator_def int_operator_division_by_zero)
next
  case False
  have conv: "to_double env l \<noteq> Inl (Builtin OverflowError)"
  proof (cases l)
    case (PInt i)
    with False assms(3) show ?thesis by auto
  qed simp_all
  from assms(1) have "\<not> is_compare f" by (auto simp: is_division_def is_compare_def)
  with False assms(1,2) conv show ?thesis
    by (auto simp: py_operator_def float_operator_division_by_zero split: option.splits)
qed

lemma division_symbols:
  "s = ''/'' \<or> s = ''//'' \<or> s = ''%'' \<Longrightarrow> \<exists>f. map_of OPCODES s = Some f \<and> is_division f"
  by (auto simp: OPCODES_def is_division_def)

lemma eval_op_division_by_zero:
  assumes "s = ''/'' \<or> s = ''//'' \<or> s = ''%''" "num_is_zero env r"
    and "as_int r \<noteq> None \<or> to_double env l \<noteq> Inl (Builtin OverflowError)"
  shows "eval_op env (TNum l) (TNum r) (TStr s) = Inl (Builtin ZeroDivisionError)"
proof -
  from assms(1) obtain f where "map_of OPCODES s = Some f" "is_division f"
    using division_symbols by blast
  with assms(2,3) show ?thesis
    by (simp add: eval_op_def py_operator_division_by_zero)
qed

lemma eval_op_division_overflow:
  assumes "s = ''/'' \<or> s = ''//'' \<or> s = ''%''" "too_large_for_float (of_int i)"
  shows "eval_op env (TNum (PInt i)) (TNum (PFloat x)) (TStr s) = Inl (Builtin OverflowError)"
proof -
  from assms(1) obtain f where "map_of OPCODES s = Some f" "is_division f"
    using division_symbols by blast
  with assms(2) show ?thesis
    by (auto simp: eval_op_def py_operator_def float_operator_def is_division_def is_compare_def)
qed

lemma in_opcodes_division:
  "s = ''/'' \<or> s = ''//'' \<or> s = ''%'' \<Longrightarrow> in_opcodes (TStr s)"
  using division_symbols by (fastforce simp: in_opcodes_def)

lemma cascade_top_zero:
  "cascade env ts (0 # cs) =
     (case reduce env ts of Inl e \<Rightarrow> Inl e | Inr ts' \<Rightarrow> cascade env ts' (dec_top cs))"
  by simp

lemma cascade_top_nonzero: "c \<noteq> 0 \<Longrightarrow> cascade env ts (c # cs) = Inr (ts, c # cs)"
  by simp

lemma reduce_three:
  "reduce env (rhs # lhs # op # rest) =
     (case eval_op env lhs rhs op of Inl e \<Rightarrow> Inl (prefix_reraise e) | Inr v \<Rightarrow> Inr (v # rest))"
  by (simp add: reduce_def)

lemma cascade_result_settled:
  "cascade env ts cs = Inr (ts', cs') \<Longrightarrow> cs' = [] \<or> hd cs' \<noteq> 0"
  by (induction env ts cs rule: cascade.induct) (auto split: if_splits sum.splits)

lemma visited_counts:
  "visited env tokens ts cs
     \<Longrightarrow> (\<forall>c \<in> set cs. c = 0 \<or> c = 1 \<or> c = 2) \<and> (\<forall>c \<in> set (tl cs). c = 1 \<or> c = 2)"
  using stacks_inv_counts [OF visited_stacks_inv] by (simp add: settled_def)

lemma prefix_loop_final_counts:
  assumes "prefix_loop env tokens s [] [] = Inr (ts, cs)"
  shows "visited env tokens ts cs \<and> (\<forall>c \<in> set cs. c = 1 \<or> c = 2)"
proof -
  have "visited env tokens [] []" by (rule visited.start)
  with assms have v: "visited env tokens ts cs" using prefix_loop_visited by blast
  have "stacks_inv [] [] \<and> settled []" by (simp add: settled_def)
  with assms have "settled cs" using prefix_loop_inv by blast
  with v show ?thesis by (simp add: settled_def)
qed

lemma tokenizer_string_tokens:
  "Inr (TStr s) \<in> set (iter (tokenize_expr env expr)) \<Longrightarrow> map_of OPCODES s \<noteq> None"
  by (auto simp: tokenize_expr_def in_opcodes_def dest!: tokenize_words_outcomes classify_token [OF sym])

lemma eval_op_lookup:
  "in_opcodes tok \<Longrightarrow> eval_op env lhs rhs tok \<noteq> Inl (Builtin KeyError)"
  using eval_op_error [of env lhs rhs tok] by auto

lemma invalid_symbol_class: "exn_class (invalid_symbol t) = Some ValueError"
  by (simp add: invalid_symbol_def)

lemma eval_postfix_expr_error:
  assumes "eval_postfix_expr env expr = Inl e"
  shows "exn_class e \<noteq> Some KeyError"
proof (cases "rpn_loop env postfix_swap (map (classify env) (py_split expr)) []")
  case (Inl e')
  with assms have "e' = e"
    by (simp add: eval_postfix_expr_def rpn_eval_expr_def tokenize_expr_def rpn_loop_tokenize_words)
  with Inl show ?thesis
    using rpn_loop_classify_error [of env postfix_swap "py_split expr" "[]" e]
    by (auto simp: invalid_symbol_class)
next
  case (Inr operands)
  with assms show ?thesis
    by (auto simp: eval_postfix_expr_def rpn_eval_expr_def tokenize_expr_def rpn_loop_tokenize_words
             split: if_splits)
qed

lemma eval_prefix_expr_error:
  assumes "eval_prefix_expr env expr = Inl e"
  shows "exn_class e \<noteq> Some KeyError \<and> e \<noteq> Raise ValueError ''Invalid operator seen.''"
proof (cases "prefix_loop env (tokenize_expr env expr) (map (classify env) (py_split expr)) [] []")
  case (Inl e')
  with assms have "e' = e"
    by (simp add: eval_prefix_expr_def prefix_eval_expr_def prefix_loop_tokenize_words)
       (simp add: tokenize_expr_def prefix_loop_tokenize_words)
  moreover have "stacks_inv [] [] \<and> settled []" by (simp add: settled_def)
  ultimately show ?thesis
    using Inl prefix_loop_classify_error
            [of "[]" "[]" env "tokenize_expr env expr" "py_split expr" e]
    by (auto simp: invalid_symbol_class invalid_symbol_neq)
next
  case (Inr res)
  with assms show ?thesis
    by (auto simp: eval_prefix_expr_def prefix_eval_expr_def tokenize_expr_def
                   prefix_loop_tokenize_words
             split: if_splits prod.splits)
qed

lemma visited_reduction_operator:
  assumes "visited env tokens ts (0 # cs)"
  shows "\<exists>r l s rest. ts = TNum r # TNum l # TStr s # rest \<and> map_of OPCODES s \<noteq> None"
proof -
  from assms have "stacks_inv ts (0 # cs)" by (rule visited_stacks_inv)
  then show ?thesis by (rule stacks_inv_top_zero) blast
qed

section \<open>The evaluators and the reference semantics\<close>

lemma spec_value_Binary:
  assumes "spec_value env (Binary s l r) = Inr v"
  obtains f a b where "map_of OPCODES s = Some f" "spec_value env l = Inr a"
    "spec_value env r = Inr b" "py_operator env f a b = Inr v"
  using assms by (auto split: option.splits sum.splits)

lemma prefix_loop_spec_expr:
  "spec_value env e = Inr v \<Longrightarrow> ts \<noteq> [] \<Longrightarrow>
     prefix_loop env tokens (map Inr (prefix_form e) @ rest) ts cs =
       (case cascade env (TNum v # ts) (dec_top cs) of
          Inl e \<Rightarrow> Inl e
        | Inr (ts', cs') \<Rightarrow> prefix_loop env tokens rest ts' cs')"
proof (induction e arbitrary: v ts cs rest)
  case (Operand n)
  then show ?case by (simp add: take_token_def)
next
  case (Binary s l r)
  from Binary.prems(1) obtain f a b where f: "map_of OPCODES s = Some f"
    and a: "spec_value env l = Inr a" and b: "spec_value env r = Inr b"
    and v: "py_operator env f a b = Inr v"
    by (rule spec_value_Binary)
  have step: "prefix_loop env tokens (map Inr (prefix_form (Binary s l r)) @ rest) ts cs =
      prefix_loop env tokens (map Inr (prefix_form l) @ map Inr (prefix_form r) @ rest)
        (TStr s # ts) (2 # cs)"
    using f by (simp add: take_token_def in_opcodes_def)
  have l: "prefix_loop env tokens (map Inr (prefix_form l) @ map Inr (prefix_form r) @ rest)
        (TStr s # ts) (2 # cs) =
      prefix_loop env tokens (map Inr (prefix_form r) @ rest) (TNum a # TStr s # ts) (1 # cs)"
    using Binary.IH(1) [OF a, of "TStr s # ts" "map Inr (prefix_form r) @ rest" "2 # cs"] by simp
  have r: "prefix_loop env tokens (map Inr (prefix_form r) @ rest) (TNum a # TStr s # ts) (1 # cs) =
      (case cascade env (TNum b # TNum a # TStr s # ts) (0 # cs) of
         Inl e \<Rightarrow> Inl e
       | Inr (ts', cs') \<Rightarrow> prefix_loop env tokens rest ts' cs')"
    using Binary.IH(2) [OF b, of "TNum a # TStr s # ts" rest "1 # cs"] by simp
  have "cascade env (TNum b # TNum a # TStr s # ts) (0 # cs) = cascade env (TNum v # ts) (dec_top cs)"
    using f v by (simp add: reduce_def eval_op_def)
  with step l r show ?case by simp
qed

lemma rpn_loop_spec_expr:
  "spec_value env e = Inr v \<Longrightarrow>
     rpn_loop env prefix_swap (map Inr (rev (prefix_form e)) @ rest) operands =
       rpn_loop env prefix_swap rest (TNum v # operands)"
proof (induction e arbitrary: v operands rest)
  case (Operand n)
  then show ?case by (simp add: in_opcodes_def)
next
  case (Binary s l r)
  from Binary.prems(1) obtain f a b where f: "map_of OPCODES s = Some f"
    and a: "spec_value env l = Inr a" and b: "spec_value env r = Inr b"
    and v: "py_operator env f a b = Inr v"
    by (rule spec_value_Binary)
  have "rpn_loop env prefix_swap (map Inr (rev (prefix_form (Binary s l r))) @ rest) operands =
      rpn_loop env prefix_swap
        (map Inr (rev (prefix_form r)) @ map Inr (rev (prefix_form l)) @ Inr (TStr s) # rest) operands"
    by simp
  also have "\<dots> = rpn_loop env prefix_swap (map Inr (rev (prefix_form l)) @ Inr (TStr s) # rest)
      (TNum b # operands)"
    using Binary.IH(2) [OF b] by simp
  also have "\<dots> = rpn_loop env prefix_swap (Inr (TStr s) # rest) (TNum a # TNum b # operands)"
    using Binary.IH(1) [OF a] by simp
  also have "\<dots> = rpn_loop env prefix_swap rest (TNum v # operands)"
    using f v by (simp add: in_opcodes_def rpn_apply_def prefix_swap_def eval_op_def)
  finally show ?case .
qed

lemma forward_scan_spec_expr:
  assumes "spec_value env e = Inr v"
  shows "prefix_eval_expr env (Generator (map Inr (prefix_form e))) = Inr (TNum v)"
proof (cases e)
  case (Operand n)
  with assms show ?thesis by (simp add: prefix_eval_expr_def take_token_def)
next
  case (Binary s l r)
  from assms Binary obtain f a b where f: "map_of OPCODES s = Some f"
    and a: "spec_value env l = Inr a" and b: "spec_value env r = Inr b"
    and v: "py_operator env f a b = Inr v"
    using spec_value_Binary by blast
  let ?g = "Generator (map Inr (prefix_form e)) :: 'a token iterable"
  have "prefix_loop env ?g (map Inr (prefix_form e)) [] [] =
      prefix_loop env ?g (map Inr (prefix_form l) @ map Inr (prefix_form r) @ []) [TStr s] [2]"
    using f Binary by (simp add: take_token_def in_opcodes_def)
  also have "\<dots> = prefix_loop env ?g (map Inr (prefix_form r) @ []) [TNum a, TStr s] [1]"
    using prefix_loop_spec_expr [OF a, of "[TStr s]" ?g "map Inr (prefix_form r) @ []" "[2]"]
    by simp
  also have "\<dots> = Inr ([TNum v], [])"
    using prefix_loop_spec_expr [OF b, of "[TNum a, TStr s]" ?g "[]" "[1]"] f v
    by (simp add: reduce_def eval_op_def)
  finally show ?thesis by (simp add: prefix_eval_expr_def)
qed

lemma reversal_spec_expr:
  assumes "spec_value env e = Inr v"
  shows "rpn_eval_expr env (PyList (rev (prefix_form e))) prefix_swap = Inr (TNum v)"
  using rpn_loop_spec_expr [OF assms, of "[]" "[]"] by (simp add: rpn_eval_expr_def)

lemma reduce_Inr:
  assumes "reduce env ts = Inr ts'"
  obtains a b s f v rest where "ts = TNum b # TNum a # TStr s # rest" "map_of OPCODES s = Some f"
    "py_operator env f a b = Inr v" "ts' = TNum v # rest"
proof -
  from assms obtain rhs lhs op rest where ts: "ts = rhs # lhs # op # rest"
    by (auto simp: reduce_def split: list.splits)
  with assms obtain w where e: "eval_op env lhs rhs op = Inr w" and ts': "ts' = w # rest"
    by (auto simp: reduce_def split: sum.splits)
  from e obtain s f a b v where "op = TStr s" "map_of OPCODES s = Some f" "lhs = TNum a"
    "rhs = TNum b" "py_operator env f a b = Inr v" "w = TNum v"
    by (cases op; cases lhs; cases rhs) (auto simp: eval_op_def split: option.splits sum.splits)
  with ts ts' that show ?thesis by blast
qed

lemma consumed_reduce:
  assumes "consumed env p ts" "reduce env ts = Inr ts'"
  shows "consumed env p ts'"
proof -
  from assms(2) obtain a b s f v rest where ts: "ts = TNum b # TNum a # TStr s # rest"
    and f: "map_of OPCODES s = Some f" and v: "py_operator env f a b = Inr v"
    and ts': "ts' = TNum v # rest"
    by (rule reduce_Inr)
  from assms(1) obtain all_segs where la: "list_all2 (denotes env) ts all_segs"
    and cc: "concat (rev all_segs) = p"
    by (auto simp: consumed_def)
  from la ts obtain sb sa so srest where "all_segs = sb # sa # so # srest"
    and d: "denotes env (TNum b) sb" "denotes env (TNum a) sa" "denotes env (TStr s) so"
    and rest: "list_all2 (denotes env) rest srest"
    by (auto simp: list_all2_Cons1 simp del: denotes.simps)
  with cc have segs: "list_all2 (denotes env) rest srest" "denotes env (TNum b) sb"
    "denotes env (TNum a) sa" "denotes env (TStr s) so" "concat (rev (sb # sa # so # srest)) = p"
    by simp_all
  from d obtain ea eb where ea: "sa = prefix_form ea" "spec_value env ea = Inr a"
    and eb: "sb = prefix_form eb" "spec_value env eb = Inr b" and so: "so = [TStr s]"
    by auto
  from f v ea eb have "denotes env (TNum v) (prefix_form (Binary s ea eb))"
    by (auto intro!: exI [of _ "Binary s ea eb"])
  moreover from segs(5) ea eb so
  have "concat (rev (prefix_form (Binary s ea eb) # srest)) = p" by simp
  ultimately show ?thesis
    using segs(1) ts' unfolding consumed_def
    by (intro exI [of _ "prefix_form (Binary s ea eb) # srest"]) simp
qed

lemma consumed_cascade:
  "consumed env p ts \<Longrightarrow> cascade env ts cs = Inr (ts', cs') \<Longrightarrow> consumed env p ts' \<and> (ts \<noteq> [] \<longrightarrow> ts' \<noteq> [])"
proof (induction env ts cs rule: cascade.induct)
  case (1 env ts)
  then show ?case by simp
next
  case (2 env ts c cs)
  show ?case
  proof (cases "c = 0")
    case True
    with "2.prems" obtain ts1 where r: "reduce env ts = Inr ts1"
      and c: "cascade env ts1 (dec_top cs) = Inr (ts', cs')"
      by (auto split: sum.splits)
    from "2.prems"(1) r have "consumed env p ts1" by (rule consumed_reduce)
    moreover from r have "ts1 \<noteq> []" by (rule reduce_Inr) simp
    ultimately show ?thesis using "2.IH" True r c by simp
  next
    case False
    with "2.prems" show ?thesis by auto
  qed
qed

lemma consumed_take_token:
  assumes "consumed env p ts" "ts \<noteq> []"
    and "take_token tokens tok rest ts cs = Inr (ex, ts', cs')"
  shows "consumed env (p @ [tok]) ts' \<and> \<not> ex \<and> ts' \<noteq> []"
proof -
  from assms(2,3) have ts': "ts' = tok # ts" and ex: "\<not> ex"
    by (auto simp: take_token_def split: token.splits if_splits)
  have "denotes env tok [tok]"
  proof (cases tok)
    case (TNum n)
    then show ?thesis by (auto intro!: exI [of _ "Operand n"])
  qed simp
  moreover from assms(1) obtain segs where "list_all2 (denotes env) ts segs" "concat (rev segs) = p"
    by (auto simp: consumed_def)
  ultimately have "consumed env (p @ [tok]) (tok # ts)"
    unfolding consumed_def by (intro exI [of _ "[tok] # segs"]) simp
  with ts' ex show ?thesis by simp
qed

lemma consumed_prefix_loop:
  "consumed env p ts \<Longrightarrow> ts \<noteq> [] \<Longrightarrow> prefix_loop env tokens (map Inr toks) ts cs = Inr (ts', cs')
     \<Longrightarrow> consumed env (p @ toks) ts'"
proof (induction toks arbitrary: p ts cs)
  case Nil
  then show ?case by simp
next
  case (Cons tok toks)
  from Cons.prems(3) obtain ex ts1 cs1 ts2 cs2
    where tt: "take_token tokens tok (map Inr toks) ts cs = Inr (ex, ts1, cs1)"
      and ca: "cascade env ts1 cs1 = Inr (ts2, cs2)"
      and lp: "prefix_loop env tokens (if ex then [] else map Inr toks) ts2 cs2 = Inr (ts', cs')"
    by (auto split: sum.splits prod.splits)
  from Cons.prems(1,2) tt have c1: "consumed env (p @ [tok]) ts1 \<and> \<not> ex \<and> ts1 \<noteq> []"
    by (rule consumed_take_token)
  with ca have c2: "consumed env (p @ [tok]) ts2 \<and> ts2 \<noteq> []"
    using consumed_cascade by blast
  from c1 lp have "prefix_loop env tokens (map Inr toks) ts2 cs2 = Inr (ts', cs')" by simp
  with c2 show ?case using Cons.IH [of "p @ [tok]" ts2 cs2] by simp
qed

lemma py_list_map_Inr: "py_list (map Inr xs) = Inr xs"
  by (induction xs) simp_all

lemma forward_scan_accepts:
  assumes "prefix_eval_expr env (Generator (map Inr toks)) = Inr v"
  shows "(\<exists>e x. toks = prefix_form e \<and> spec_value env e = Inr x \<and> v = TNum x)
           \<or> (\<exists>n t. toks = [TNum n, t] \<and> v = TNum n)"
proof (cases toks)
  case Nil
  with assms show ?thesis by (simp add: prefix_eval_expr_def)
next
  case (Cons tok rest)
  show ?thesis
  proof (cases tok)
    case (TNum n)
    with assms Cons have "(if 1 < length rest then Inl (Raise ValueError ''Invalid expression.'')
        else Inr (TNum n)) = Inr v"
      using prefix_leading_number_generator [OF py_list_map_Inr, of env n rest] by simp
    then have "length rest \<le> 1" "v = TNum n" by (auto split: if_splits)
    with Cons TNum show ?thesis
      by (cases rest) (auto intro: exI [of _ "Operand n"])
  next
    case (TStr s)
    let ?g = "Generator (map Inr toks) :: 'a token iterable"
    from assms obtain ts cs where lp: "prefix_loop env ?g (map Inr toks) [] [] = Inr (ts, cs)"
      and fin: "length ts = 1" "cs = []" "v = hd ts"
      by (auto simp: prefix_eval_expr_def split: sum.splits prod.splits if_splits)
    from lp Cons TStr have op: "in_opcodes tok"
      and lp': "prefix_loop env ?g (map Inr rest) [TStr s] [2] = Inr (ts, cs)"
      by (auto simp: take_token_def split: if_splits)
    have "consumed env [TStr s] [TStr s]"
      unfolding consumed_def by (intro exI [of _ "[TStr s] # []"]) simp
    with lp' have "consumed env ([TStr s] @ rest) ts"
      using consumed_prefix_loop [of env "[TStr s]" "[TStr s]" ?g rest "[2]" ts cs] by simp
    with fin Cons TStr have den: "denotes env v toks"
      by (cases ts) (auto simp: consumed_def list_all2_Cons1)
    show ?thesis
    proof (cases v)
      case (TNum x)
      with den show ?thesis by auto
    next
      case v: (TStr s')
      with den Cons TStr have "rest = []" by simp
      with lp' fin show ?thesis by simp
    qed
  qed
qed

text \<open>One round of the loop, from a pair of stacks that the scan passes through.\<close>

lemma prefix_loop_step_visited:
  assumes "visited env tokens ts cs" "cs = [] \<or> hd cs \<noteq> 0"
  shows "(case take_token tokens tok rest ts cs of
            Inl e \<Rightarrow> prefix_loop env tokens (Inr tok # rest) ts cs = Inl e
          | Inr (ex, ts1, cs1) \<Rightarrow>
              visited env tokens ts1 cs1 \<and>
              (case cascade env ts1 cs1 of
                 Inl e \<Rightarrow> prefix_loop env tokens (Inr tok # rest) ts cs = Inl e
               | Inr (ts2, cs2) \<Rightarrow>
                   visited env tokens ts2 cs2 \<and> (cs2 = [] \<or> hd cs2 \<noteq> 0) \<and>
                   prefix_loop env tokens (Inr tok # rest) ts cs =
                     prefix_loop env tokens (if ex then [] else rest) ts2 cs2))"
proof (cases "take_token tokens tok rest ts cs")
  case (Inl e)
  then show ?thesis by simp
next
  case tt: (Inr res)
  obtain ex ts1 cs1 where res: "res = (ex, ts1, cs1)" by (cases res)
  from assms tt res have v1: "visited env tokens ts1 cs1" by (simp add: visited.token)
  show ?thesis
  proof (cases "cascade env ts1 cs1")
    case (Inl e)
    with tt res v1 show ?thesis by simp
  next
    case ca: (Inr res2)
    obtain ts2 cs2 where res2: "res2 = (ts2, cs2)" by (cases res2)
    from v1 ca res2 have "visited env tokens ts2 cs2 \<and> (cs2 = [] \<or> hd cs2 \<noteq> 0)"
      by (simp add: cascade_visited)
    with tt res v1 ca res2 show ?thesis by simp
  qed
qed

lemma prefix_loop_reduces:
  "prefix_loop env tokens (Inr (TNum b) # rest) (TNum a # TStr s # ts) (1 # cs) =
     (case eval_op env (TNum a) (TNum b) (TStr s) of
        Inl e \<Rightarrow> Inl (prefix_reraise e)
      | Inr v \<Rightarrow>
          (case cascade env (v # ts) (dec_top cs) of
             Inl e \<Rightarrow> Inl e
           | Inr (ts', cs') \<Rightarrow> prefix_loop env tokens rest ts' cs'))"
  by (simp add: take_token_def reduce_def split: sum.splits)


section \<open>A word that raises, and the evaluation around it\<close>

















section \<open>The claims\<close>

text \<open>
  Claim C1. On the empty input string, and on any empty token sequence, the
  stack engine of the postfix evaluator does not return 0: no value is on the stack at
  the end, and the evaluator raises \<^verbatim>\<open>ValueError("Invalid expression.")\<close>.
\<close>

theorem postfix_empty_input_is_invalid:
  "rpn_eval_expr env (Generator []) swap_func = Inl (Raise ValueError ''Invalid expression.'')
   \<and> rpn_eval_expr env (PyList []) swap_func = Inl (Raise ValueError ''Invalid expression.'')
   \<and> eval_postfix_expr env '''' = Inl (Raise ValueError ''Invalid expression.'')"
  by (simp add: postfix_empty) (simp add: rpn_eval_expr_def)

text \<open>Claim C1, a counterexample: the postfix evaluator on the empty string does not return 0.\<close>

theorem postfix_empty_input_not_zero:
  "eval_postfix_expr ideal '''' = Inl (Raise ValueError ''Invalid expression.'')
   \<and> eval_postfix_expr ideal '''' \<noteq> Inr (TNum (PInt 0))"
  by (simp add: postfix_empty)

text \<open>
  Claim C2. \<^verbatim>\<open>eval_prefix_expr\<close> of \<^verbatim>\<open>eval_rpn.py\<close> calls \<^verbatim>\<open>reversed\<close> on the generator
  of the tokenizer, so on every input it raises \<^verbatim>\<open>TypeError\<close>, while on \<^verbatim>\<open>+ 3 4\<close> the
  forward scan of \<^verbatim>\<open>eval_prefix.py\<close> returns 7. The two strategies themselves agree: on
  the tokens of every valid prefix expression that has a value, the forward scan and the
  stack engine on the reversed list, with the operands taken in the order popped,
  return this value.
\<close>

theorem reversal_evaluator_raises_TypeError:
  "rpn_eval_prefix_expr env expr = Inl (Builtin TypeError)
   \<and> rpn_eval_prefix_expr env ''+ 3 4'' \<noteq> eval_prefix_expr env ''+ 3 4''
   \<and> (\<forall>e v. spec_value env e = Inr v \<longrightarrow>
        prefix_eval_expr env (Generator (map Inr (prefix_form e))) = Inr (TNum v)
        \<and> rpn_eval_expr env (PyList (rev (prefix_form e))) prefix_swap = Inr (TNum v))"
  using forward_scan_spec_expr [of env] reversal_spec_expr [of env]
  by (simp add: rpn_eval_prefix_expr_raises prefix_7)

theorem reversal_evaluator_raises_TypeError_witness:
  "spec_value ideal (Binary ''-'' (Operand (PInt 3)) (Operand (PInt 4))) = Inr (PInt (- 1))
   \<and> prefix_eval_expr ideal (Generator [Inr (TStr ''-''), Inr (TNum (PInt 3)), Inr (TNum (PInt 4))])
       = Inr (TNum (PInt (- 1)))
   \<and> rpn_eval_expr ideal (PyList [TNum (PInt 4), TNum (PInt 3), TStr ''-'']) prefix_swap
       = Inr (TNum (PInt (- 1)))
   \<and> rpn_eval_prefix_expr ideal ''- 3 4'' = Inl (Builtin TypeError)"
proof -
  note T = reversal_evaluator_raises_TypeError [of ideal "''- 3 4''"]
  have v: "spec_value ideal (Binary ''-'' (Operand (PInt 3)) (Operand (PInt 4))) = Inr (PInt (- 1))"
    by (simp add: OPCODES_def py_operator_def)
  note A = T [THEN conjunct2, THEN conjunct2, THEN spec, THEN spec, THEN mp, OF v]
  from A [THEN conjunct1] A [THEN conjunct2] v T [THEN conjunct1] show ?thesis by simp
qed

text \<open>
  Claim C3. The forward scan rejects \<^verbatim>\<open>+\<close> (an operand is missing) and \<^verbatim>\<open>+ 1 2 3\<close>
  (an operand is left over) with \<^verbatim>\<open>ValueError("Invalid expression.")\<close>, and returns a value
  only for the tokens of a valid prefix expression, then the value of the expression,
  with one exception: of two tokens that begin with a number it returns the number, so
  \<^verbatim>\<open>3 4\<close> is not rejected and evaluates to 3.
\<close>

theorem prefix_two_bare_numbers_accepted:
  "eval_prefix_expr env ''3 4'' = Inr (TNum (PInt 3))
   \<and> eval_prefix_expr env ''+'' = Inl (Raise ValueError ''Invalid expression.'')
   \<and> eval_prefix_expr env '' + 1 2 3'' = Inl (Raise ValueError ''Invalid expression.'')
   \<and> (\<forall>toks v. prefix_eval_expr env (Generator (map Inr toks)) = Inr v \<longrightarrow>
        (\<exists>e x. toks = prefix_form e \<and> spec_value env e = Inr x \<and> v = TNum x)
        \<or> (\<exists>n t. toks = [TNum n, t] \<and> v = TNum n))"
  using forward_scan_accepts [of env]
  by (simp only: prefix_3_4 prefix_plus prefix_plus_1_2_3 simp_thms) blast

theorem prefix_two_bare_numbers_accepted_witness:
  "prefix_eval_expr ideal (Generator (map Inr [TNum (PInt 3), TNum (PInt 4)])) = Inr (TNum (PInt 3))
   \<and> ((\<exists>e x. [TNum (PInt 3), TNum (PInt 4)] = prefix_form e \<and> spec_value ideal e = Inr x
              \<and> TNum (PInt 3) = TNum x)
        \<or> (\<exists>n t. [TNum (PInt 3), TNum (PInt 4) :: ideal_float token] = [TNum n, t]
              \<and> TNum (PInt 3) = (TNum n :: ideal_float token)))"
proof -
  note T = prefix_two_bare_numbers_accepted [of ideal]
  have h: "prefix_eval_expr ideal (Generator (map Inr [TNum (PInt 3), TNum (PInt 4)]))
      = Inr (TNum (PInt 3))"
    by (simp add: prefix_eval_expr_def take_token_def)
  note A = T [THEN conjunct2, THEN conjunct2, THEN conjunct2, THEN spec, THEN spec, THEN mp, OF h]
  from h A show ?thesis by (rule conjI)
qed

text \<open>
  Claim C7. The worked examples hold for the postfix evaluator and for the forward
  scan of \<^verbatim>\<open>eval_prefix.py\<close> (6.25 is the float nearest to 25/4); the prefix evaluator of
  \<^verbatim>\<open>eval_rpn.py\<close> raises \<^verbatim>\<open>TypeError\<close> on each of them.
\<close>

theorem worked_examples:
  "eval_postfix_expr env ''3 4 +'' = Inr (TNum (PInt 7))
   \<and> eval_prefix_expr env ''+ 3 4'' = Inr (TNum (PInt 7))
   \<and> eval_postfix_expr env ''10 5 * 6 2 + /'' = Inr (TNum (PFloat (nearest env (25 / 4))))
   \<and> eval_prefix_expr env ''/ * 10 5 + 6 2'' = Inr (TNum (PFloat (nearest env (25 / 4))))
   \<and> eval_postfix_expr env ''10 7 2 3 * + -'' = Inr (TNum (PInt (- 3)))
   \<and> eval_prefix_expr env ''- 10 + 7 * 2 3'' = Inr (TNum (PInt (- 3)))
   \<and> rpn_eval_prefix_expr env ''+ 3 4'' = Inl (Builtin TypeError)
   \<and> rpn_eval_prefix_expr env ''/ * 10 5 + 6 2'' = Inl (Builtin TypeError)
   \<and> rpn_eval_prefix_expr env ''- 10 + 7 * 2 3'' = Inl (Builtin TypeError)"
  by (simp only: postfix_7 prefix_7 postfix_625 prefix_625 postfix_m3 prefix_m3
        rpn_eval_prefix_expr_raises simp_thms)





text \<open>
  Claim C5. In postfix evaluation an operator token takes the top of the stack as
  its right operand and the value below as its left operand and pushes the result; with
  fewer than two values on the stack the evaluation fails with
  \<^verbatim>\<open>IndexError("Invalid expression.")\<close>; and when more than one value is left after the
  last token, as after \<^verbatim>\<open>1 2 3 +\<close>, it fails with \<^verbatim>\<open>ValueError("Invalid expression.")\<close>.
\<close>

theorem postfix_operator_and_final_check:
  "(\<forall>tok a b stack rest. in_opcodes tok \<longrightarrow>
      rpn_loop env postfix_swap (Inr tok # rest) (a # b # stack) =
        (case eval_op env b a tok of
           Inl e \<Rightarrow> Inl (rpn_reraise e)
         | Inr v \<Rightarrow> rpn_loop env postfix_swap rest (v # stack)))
   \<and> (\<forall>tok stack rest. in_opcodes tok \<and> length stack < 2 \<longrightarrow>
      rpn_loop env postfix_swap (Inr tok # rest) stack = Inl (Raise IndexError ''Invalid expression.''))
   \<and> (\<forall>tokens stack. rpn_loop env postfix_swap (iter tokens) [] = Inr stack \<and> 1 < length stack \<longrightarrow>
      rpn_eval_expr env tokens postfix_swap = Inl (Raise ValueError ''Invalid expression.''))
   \<and> rpn_loop env postfix_swap (iter (tokenize_expr env ''1 2 3 +'')) []
       = Inr [TNum (PInt 5), TNum (PInt 1)]
   \<and> eval_postfix_expr env ''1 2 3 +'' = Inl (Raise ValueError ''Invalid expression.'')"
  using rpn_loop_operator [of _ env] rpn_loop_too_few [of _ _ env postfix_swap]
    rpn_eval_expr_too_many [of env postfix_swap]
  by (simp add: rpn_loop_1_2_3_plus postfix_1_2_3_plus)

theorem postfix_operator_and_final_check_witness:
  "rpn_loop ideal postfix_swap [Inr (TStr ''-'')] [TNum (PInt 4), TNum (PInt 3)] = Inr [TNum (PInt (- 1))]
   \<and> rpn_loop ideal postfix_swap [Inr (TStr ''-'')] [TNum (PInt 4)] = Inl (Raise IndexError ''Invalid expression.'')
   \<and> rpn_eval_expr ideal (PyList [TNum (PInt 4), TNum (PInt 3)]) postfix_swap
       = Inl (Raise ValueError ''Invalid expression.'')"
proof -
  note T = postfix_operator_and_final_check [of ideal]
  have op: "in_opcodes (TStr ''-'' :: ideal_float token)" by (simp add: in_opcodes_def OPCODES_def)
  have "rpn_loop ideal postfix_swap (Inr (TStr ''-'') # []) (TNum (PInt 4) # TNum (PInt 3) # []) =
        (case eval_op ideal (TNum (PInt 3)) (TNum (PInt 4)) (TStr ''-'') of
           Inl e \<Rightarrow> Inl (rpn_reraise e)
         | Inr v \<Rightarrow> rpn_loop ideal postfix_swap [] (v # []))"
    using T op by blast
  then have w1: "rpn_loop ideal postfix_swap [Inr (TStr ''-'')] [TNum (PInt 4), TNum (PInt 3)]
      = Inr [TNum (PInt (- 1))]"
    by (simp add: eval_op_def py_operator_def OPCODES_def)
  have "length [TNum (PInt 4) :: ideal_float token] < 2" by simp
  with T op have w2: "rpn_loop ideal postfix_swap (Inr (TStr ''-'') # []) [TNum (PInt 4)]
      = Inl (Raise IndexError ''Invalid expression.'')"
    by blast
  have "rpn_loop ideal postfix_swap (iter (PyList [TNum (PInt 4), TNum (PInt 3)])) []
      = Inr [TNum (PInt 3), TNum (PInt 4)] \<and> 1 < length [TNum (PInt 3) :: ideal_float token, TNum (PInt 4)]"
    by (simp add: in_opcodes_def)
  with T have w3: "rpn_eval_expr ideal (PyList [TNum (PInt 4), TNum (PInt 3)]) postfix_swap
       = Inl (Raise ValueError ''Invalid expression.'')"
    by blast
  from w1 w2 w3 show ?thesis by simp
qed

text \<open>
  Claim C9. When the first token is a number, the forward scan runs the generator
  to its end and counts the tokens after the first: with more than one it raises
  \<^verbatim>\<open>ValueError("Invalid expression.")\<close>, with one or none it returns the first number, so
  \<^verbatim>\<open>3 4\<close> evaluates to 3 while \<^verbatim>\<open>3 4 5\<close> is rejected. (For a list in place of the generator
  the count includes the first token, and any following token leads to the error.)
\<close>

theorem prefix_leading_operand_check:
  "(\<forall>rest following n. py_list rest = Inr following \<longrightarrow>
      prefix_eval_expr env (Generator (Inr (TNum n) # rest)) =
        (if 1 < length following then Inl (Raise ValueError ''Invalid expression.'')
         else Inr (TNum n)))
   \<and> (\<forall>rest e n. py_list rest = Inl e \<longrightarrow>
      prefix_eval_expr env (Generator (Inr (TNum n) # rest)) = Inl e)
   \<and> (\<forall>n xs. prefix_eval_expr env (PyList (TNum n # xs)) =
        (if xs \<noteq> [] then Inl (Raise ValueError ''Invalid expression.'') else Inr (TNum n)))
   \<and> eval_prefix_expr env ''3 4'' = Inr (TNum (PInt 3))
   \<and> eval_prefix_expr env ''3 4 5'' = Inl (Raise ValueError ''Invalid expression.'')"
  using prefix_leading_number_generator [of _ _ env]
    prefix_leading_number_generator_error [of _ _ env]
  by (simp add: prefix_leading_number_list prefix_3_4 prefix_3_4_5)

theorem prefix_leading_operand_check_witness:
  "prefix_eval_expr ideal (Generator [Inr (TNum (PInt 3)), Inr (TNum (PInt 4))]) = Inr (TNum (PInt 3))
   \<and> prefix_eval_expr ideal (Generator [Inr (TNum (PInt 3)), Inr (TStr ''+''), Inr (TNum (PInt 4))])
       = Inl (Raise ValueError ''Invalid expression.'')
   \<and> prefix_eval_expr ideal (Generator [Inr (TNum (PInt 3)), Inl (invalid_symbol ''$'')])
       = Inl (invalid_symbol ''$'')"
proof -
  note T = prefix_leading_operand_check [of ideal]
  have l1: "py_list [Inr (TNum (PInt 4) :: ideal_float token)] = Inr [TNum (PInt 4)]" by simp
  have l2: "py_list [Inr (TStr ''+'' :: ideal_float token), Inr (TNum (PInt 4))]
      = Inr [TStr ''+'', TNum (PInt 4)]" by simp
  have l3: "py_list [Inl (invalid_symbol ''$'') :: py_error + ideal_float token]
      = Inl (invalid_symbol ''$'')" by simp
  from T l1 have "prefix_eval_expr ideal (Generator (Inr (TNum (PInt 3)) # [Inr (TNum (PInt 4))])) =
        (if 1 < length [TNum (PInt 4) :: ideal_float token] then Inl (Raise ValueError ''Invalid expression.'')
         else Inr (TNum (PInt 3)))" by blast
  moreover from T l2 have "prefix_eval_expr ideal (Generator (Inr (TNum (PInt 3)) # [Inr (TStr ''+''), Inr (TNum (PInt 4))])) =
        (if 1 < length [TStr ''+'' :: ideal_float token, TNum (PInt 4)] then Inl (Raise ValueError ''Invalid expression.'')
         else Inr (TNum (PInt 3)))" by blast
  moreover from T l3 have "prefix_eval_expr ideal (Generator (Inr (TNum (PInt 3)) # [Inl (invalid_symbol ''$'')])) = Inl (invalid_symbol ''$'')"
    by blast
  ultimately show ?thesis by simp
qed

text \<open>
  Claim C6. When \<^verbatim>\<open>/\<close>, \<^verbatim>\<open>//\<close> or \<^verbatim>\<open>%\<close> is applied to numbers (int, bool, float)
  with a zero right operand, and the left operand is not an int too large for a float
  beside a float divisor, the postfix evaluation fails with
  \<^verbatim>\<open>ZeroDivisionError("Can not divide by zero.")\<close> and the forward scan with
  \<^verbatim>\<open>ValueError("Can not divide by zero.")\<close>, whatever follows (so for \<^verbatim>\<open>102 0 /\<close>). An int
  of magnitude \<open>2 ^ 1024 - 2 ^ 970\<close> or more divided by a float raises
  \<^verbatim>\<open>OverflowError\<close>, which no evaluator handles.
\<close>

theorem division_by_zero_is_reported:
  "(\<forall>s l r. (s = ''/'' \<or> s = ''//'' \<or> s = ''%'') \<and> num_is_zero env r
        \<and> (as_int r \<noteq> None \<or> to_double env l \<noteq> Inl (Builtin OverflowError)) \<longrightarrow>
      (\<forall>rest stack. rpn_loop env postfix_swap (Inr (TStr s) # rest) (TNum r # TNum l # stack)
         = Inl (Raise ZeroDivisionError ''Can not divide by zero.''))
      \<and> (\<forall>ts cs. cascade env (TNum r # TNum l # TStr s # ts) (0 # cs)
         = Inl (Raise ValueError ''Can not divide by zero.'')))
   \<and> (\<forall>s i x. (s = ''/'' \<or> s = ''//'' \<or> s = ''%'') \<and> too_large_for_float (of_int i) \<longrightarrow>
      (\<forall>rest stack. rpn_loop env postfix_swap (Inr (TStr s) # rest)
           (TNum (PFloat x) # TNum (PInt i) # stack) = Inl (Builtin OverflowError))
      \<and> (\<forall>ts cs. cascade env (TNum (PFloat x) # TNum (PInt i) # TStr s # ts) (0 # cs)
         = Inl (Builtin OverflowError)))
   \<and> eval_postfix_expr env ''102 0 /'' = Inl (Raise ZeroDivisionError ''Can not divide by zero.'')
   \<and> eval_prefix_expr env ''/ 102 0'' = Inl (Raise ValueError ''Can not divide by zero.'')"
proof -
  have c1: "\<forall>s l r. (s = ''/'' \<or> s = ''//'' \<or> s = ''%'') \<and> num_is_zero env r
        \<and> (as_int r \<noteq> None \<or> to_double env l \<noteq> Inl (Builtin OverflowError)) \<longrightarrow>
      (\<forall>rest stack. rpn_loop env postfix_swap (Inr (TStr s) # rest) (TNum r # TNum l # stack)
         = Inl (Raise ZeroDivisionError ''Can not divide by zero.''))
      \<and> (\<forall>ts cs. cascade env (TNum r # TNum l # TStr s # ts) (0 # cs)
         = Inl (Raise ValueError ''Can not divide by zero.''))"
  proof (intro allI impI)
    fix s :: string and l r :: "'a num"
    assume h: "(s = ''/'' \<or> s = ''//'' \<or> s = ''%'') \<and> num_is_zero env r
        \<and> (as_int r \<noteq> None \<or> to_double env l \<noteq> Inl (Builtin OverflowError))"
    then have e: "eval_op env (TNum l) (TNum r) (TStr s) = Inl (Builtin ZeroDivisionError)"
      by (simp add: eval_op_division_by_zero)
    from h have op: "in_opcodes (TStr s :: 'a token)" by (simp add: in_opcodes_division)
    from e op show "(\<forall>rest stack. rpn_loop env postfix_swap (Inr (TStr s) # rest) (TNum r # TNum l # stack)
         = Inl (Raise ZeroDivisionError ''Can not divide by zero.''))
      \<and> (\<forall>ts cs. cascade env (TNum r # TNum l # TStr s # ts) (0 # cs)
         = Inl (Raise ValueError ''Can not divide by zero.''))"
      by (simp add: rpn_apply_def postfix_swap_def rpn_reraise_def reduce_def prefix_reraise_def)
  qed
  have c2: "\<forall>s i x. (s = ''/'' \<or> s = ''//'' \<or> s = ''%'') \<and> too_large_for_float (of_int i) \<longrightarrow>
      (\<forall>rest stack. rpn_loop env postfix_swap (Inr (TStr s) # rest)
           (TNum (PFloat x) # TNum (PInt i) # stack) = Inl (Builtin OverflowError))
      \<and> (\<forall>ts cs. cascade env (TNum (PFloat x) # TNum (PInt i) # TStr s # ts) (0 # cs)
         = Inl (Builtin OverflowError))"
  proof (intro allI impI)
    fix s :: string and i :: int and x :: 'a
    assume h: "(s = ''/'' \<or> s = ''//'' \<or> s = ''%'') \<and> too_large_for_float (of_int i)"
    then have e: "eval_op env (TNum (PInt i)) (TNum (PFloat x)) (TStr s) = Inl (Builtin OverflowError)"
      by (simp add: eval_op_division_overflow)
    from h have op: "in_opcodes (TStr s :: 'a token)" by (simp add: in_opcodes_division)
    from e op show "(\<forall>rest stack. rpn_loop env postfix_swap (Inr (TStr s) # rest)
           (TNum (PFloat x) # TNum (PInt i) # stack) = Inl (Builtin OverflowError))
      \<and> (\<forall>ts cs. cascade env (TNum (PFloat x) # TNum (PInt i) # TStr s # ts) (0 # cs)
         = Inl (Builtin OverflowError))"
      by (simp add: rpn_apply_def postfix_swap_def rpn_reraise_def reduce_def prefix_reraise_def)
  qed
  show ?thesis
    by (intro conjI; (rule c1 | rule c2 | rule postfix_102_0_div | rule prefix_div_102_0))
qed

theorem division_by_zero_is_reported_witness:
  "rpn_loop ideal postfix_swap [Inr (TStr ''%''), Inr (TNum (PInt 1))]
       [TNum (PFloat (Finite 0)), TNum (PInt 102)]
     = Inl (Raise ZeroDivisionError ''Can not divide by zero.'')
   \<and> cascade ideal [TNum (PBool False), TNum (PFloat (Finite (1 / 2))), TStr ''//''] [0, 1]
     = Inl (Raise ValueError ''Can not divide by zero.'')
   \<and> cascade ideal [TNum (PFloat (Finite 0)), TNum (PInt (10 ^ 400)), TStr ''//''] [0, 1]
     = Inl (Builtin OverflowError)"
proof -
  note T = division_by_zero_is_reported [of ideal]
  have h1: "(''%'' = ''/'' \<or> ''%'' = ''//'' \<or> ''%'' = ''%'') \<and> num_is_zero ideal (PFloat (Finite 0))
      \<and> (as_int (PFloat (Finite 0)) \<noteq> None \<or> to_double ideal (PInt 102) \<noteq> Inl (Builtin OverflowError))"
    by (simp add: ideal_def too_large_for_float_def)
  have h2: "(''//'' = ''/'' \<or> ''//'' = ''//'' \<or> ''//'' = ''%'') \<and> num_is_zero ideal (PBool False)
      \<and> (as_int (PBool False :: ideal_float num) \<noteq> None
          \<or> to_double ideal (PFloat (Finite (1 / 2))) \<noteq> Inl (Builtin OverflowError))"
    by simp
  have h3: "(''//'' = ''/'' \<or> ''//'' = ''//'' \<or> ''//'' = ''%'') \<and> too_large_for_float (of_int (10 ^ 400))"
    using huge by simp
  have "rpn_loop ideal postfix_swap (Inr (TStr ''%'') # [Inr (TNum (PInt 1))])
       (TNum (PFloat (Finite 0)) # TNum (PInt 102) # [])
     = Inl (Raise ZeroDivisionError ''Can not divide by zero.'')"
    by (rule T [THEN conjunct1, THEN spec, THEN spec, THEN spec, THEN mp, OF h1, THEN conjunct1,
          THEN spec, THEN spec])
  moreover have "cascade ideal (TNum (PBool False) # TNum (PFloat (Finite (1 / 2))) # TStr ''//'' # []) (0 # [1])
     = Inl (Raise ValueError ''Can not divide by zero.'')"
    by (rule T [THEN conjunct1, THEN spec, THEN spec, THEN spec, THEN mp, OF h2, THEN conjunct2,
          THEN spec, THEN spec])
  moreover have "cascade ideal (TNum (PFloat (Finite 0)) # TNum (PInt (10 ^ 400)) # TStr ''//'' # []) (0 # [1])
     = Inl (Builtin OverflowError)"
    by (rule T [THEN conjunct2, THEN conjunct1, THEN spec, THEN spec, THEN spec, THEN mp, OF h3,
          THEN conjunct2, THEN spec, THEN spec])
  ultimately show ?thesis by simp
qed

text \<open>
  Claim C6, a counterexample: \<^verbatim>\<open>10 400 ^ 0.0 /\<close> divides the int \<open>10 ^ 400\<close> by the float zero;
  the conversion of the int raises \<^verbatim>\<open>OverflowError\<close> before the divisor is looked at, and
  the evaluators let it through.
\<close>

theorem division_by_zero_counterexample:
  "num_is_zero ideal (PFloat (Finite 0))
   \<and> rpn_loop ideal postfix_swap [Inr (TStr ''/'')] [TNum (PFloat (Finite 0)), TNum (PInt (10 ^ 400))]
       = Inl (Builtin OverflowError)
   \<and> eval_postfix_expr ideal ''10 400 ^ 0.0 /'' = Inl (Builtin OverflowError)
   \<and> eval_prefix_expr ideal ''/ ^ 10 400 0.0'' = Inl (Builtin OverflowError)"
proof -
  have "eval_op ideal (TNum (PInt (10 ^ 400))) (TNum (PFloat (Finite 0))) (TStr ''/'')
      = Inl (Builtin OverflowError)"
    using huge by (simp add: eval_op_division_overflow)
  then have "rpn_loop ideal postfix_swap [Inr (TStr ''/'')] [TNum (PFloat (Finite 0)), TNum (PInt (10 ^ 400))]
       = Inl (Builtin OverflowError)"
    by (simp add: rpn_apply_def postfix_swap_def rpn_reraise_def in_opcodes_def OPCODES_def)
  then show ?thesis
    by (simp add: postfix_huge prefix_huge) (simp add: ideal_def)
qed

text \<open>
  Claim C8. In every pair of stacks that the forward scan passes through, each entry of
  the count stack is 0, 1 or 2, and only the top can be 0; between two tokens and at the
  end every entry is 1 or 2. Each round of the loop goes from such a pair, through the
  pair after the token is taken, to the pair that the \<^verbatim>\<open>while\<close> loop leaves. When a number
  brings the top to 0, the loop pops it, pops \<^verbatim>\<open>rhs\<close>, \<^verbatim>\<open>lhs\<close> and \<^verbatim>\<open>op\<close> (pushed in the order
  \<^verbatim>\<open>op\<close>, \<^verbatim>\<open>lhs\<close>, \<^verbatim>\<open>rhs\<close>), pushes the result of \<^verbatim>\<open>op\<close> on \<^verbatim>\<open>lhs\<close> and \<^verbatim>\<open>rhs\<close>, decrements the
  new top if there is one, and goes on until the top is not 0, before it takes the next
  token; so when the tokens of a subexpression have been read, its value is on the stack
  and the count of the operator around it is one less.
\<close>

theorem count_stack_invariant:
  "(\<forall>ts cs. visited env tokens ts cs \<longrightarrow>
      (\<forall>c \<in> set cs. c = 0 \<or> c = 1 \<or> c = 2) \<and> (\<forall>c \<in> set (tl cs). c = 1 \<or> c = 2))
   \<and> (\<forall>s ts cs. prefix_loop env tokens s [] [] = Inr (ts, cs) \<longrightarrow>
      visited env tokens ts cs \<and> (\<forall>c \<in> set cs. c = 1 \<or> c = 2))
   \<and> (\<forall>tok rest ts cs. visited env tokens ts cs \<and> (cs = [] \<or> hd cs \<noteq> 0) \<longrightarrow>
      (case take_token tokens tok rest ts cs of
         Inl e \<Rightarrow> prefix_loop env tokens (Inr tok # rest) ts cs = Inl e
       | Inr (ex, ts1, cs1) \<Rightarrow>
           visited env tokens ts1 cs1 \<and>
           (case cascade env ts1 cs1 of
              Inl e \<Rightarrow> prefix_loop env tokens (Inr tok # rest) ts cs = Inl e
            | Inr (ts2, cs2) \<Rightarrow>
                visited env tokens ts2 cs2 \<and> (cs2 = [] \<or> hd cs2 \<noteq> 0) \<and>
                prefix_loop env tokens (Inr tok # rest) ts cs =
                  prefix_loop env tokens (if ex then [] else rest) ts2 cs2)))
   \<and> (\<forall>a b s ts cs rest.
      prefix_loop env tokens (Inr (TNum b) # rest) (TNum a # TStr s # ts) (1 # cs) =
        (case eval_op env (TNum a) (TNum b) (TStr s) of
           Inl e \<Rightarrow> Inl (prefix_reraise e)
         | Inr v \<Rightarrow>
             (case cascade env (v # ts) (dec_top cs) of
                Inl e \<Rightarrow> Inl e
              | Inr (ts', cs') \<Rightarrow> prefix_loop env tokens rest ts' cs')))
   \<and> (\<forall>e v ts cs rest. spec_value env e = Inr v \<and> ts \<noteq> [] \<longrightarrow>
      prefix_loop env tokens (map Inr (prefix_form e) @ rest) ts cs =
        (case cascade env (TNum v # ts) (dec_top cs) of
           Inl e \<Rightarrow> Inl e
         | Inr (ts', cs') \<Rightarrow> prefix_loop env tokens rest ts' cs'))
   \<and> (\<forall>ts cs. cascade env ts (0 # cs) =
        (case reduce env ts of Inl e \<Rightarrow> Inl e | Inr ts' \<Rightarrow> cascade env ts' (dec_top cs)))
   \<and> (\<forall>rhs lhs op rest. reduce env (rhs # lhs # op # rest) =
        (case eval_op env lhs rhs op of
           Inl e \<Rightarrow> Inl (prefix_reraise e)
         | Inr v \<Rightarrow> Inr (v # rest)))
   \<and> dec_top [] = []
   \<and> (\<forall>c cs. dec_top (c # cs) = (c - 1) # cs)
   \<and> (\<forall>ts c cs. c \<noteq> 0 \<longrightarrow> cascade env ts (c # cs) = Inr (ts, c # cs))
   \<and> (\<forall>ts. cascade env ts [] = Inr (ts, []))
   \<and> (\<forall>ts cs ts' cs'. cascade env ts cs = Inr (ts', cs') \<longrightarrow> cs' = [] \<or> hd cs' \<noteq> 0)"
proof -
  have c1: "\<forall>ts cs. visited env tokens ts cs \<longrightarrow>
      (\<forall>c \<in> set cs. c = 0 \<or> c = 1 \<or> c = 2) \<and> (\<forall>c \<in> set (tl cs). c = 1 \<or> c = 2)"
    using visited_counts by blast
  have c2: "\<forall>s ts cs. prefix_loop env tokens s [] [] = Inr (ts, cs) \<longrightarrow>
      visited env tokens ts cs \<and> (\<forall>c \<in> set cs. c = 1 \<or> c = 2)"
    using prefix_loop_final_counts by blast
  have c3: "\<forall>tok rest ts cs. visited env tokens ts cs \<and> (cs = [] \<or> hd cs \<noteq> 0) \<longrightarrow>
      (case take_token tokens tok rest ts cs of
         Inl e \<Rightarrow> prefix_loop env tokens (Inr tok # rest) ts cs = Inl e
       | Inr (ex, ts1, cs1) \<Rightarrow>
           visited env tokens ts1 cs1 \<and>
           (case cascade env ts1 cs1 of
              Inl e \<Rightarrow> prefix_loop env tokens (Inr tok # rest) ts cs = Inl e
            | Inr (ts2, cs2) \<Rightarrow>
                visited env tokens ts2 cs2 \<and> (cs2 = [] \<or> hd cs2 \<noteq> 0) \<and>
                prefix_loop env tokens (Inr tok # rest) ts cs =
                  prefix_loop env tokens (if ex then [] else rest) ts2 cs2))"
    using prefix_loop_step_visited by blast
  have c4: "\<forall>a b s ts cs rest.
      prefix_loop env tokens (Inr (TNum b) # rest) (TNum a # TStr s # ts) (1 # cs) =
        (case eval_op env (TNum a) (TNum b) (TStr s) of
           Inl e \<Rightarrow> Inl (prefix_reraise e)
         | Inr v \<Rightarrow>
             (case cascade env (v # ts) (dec_top cs) of
                Inl e \<Rightarrow> Inl e
              | Inr (ts', cs') \<Rightarrow> prefix_loop env tokens rest ts' cs'))"
    using prefix_loop_reduces by blast
  have c5: "\<forall>e v ts cs rest. spec_value env e = Inr v \<and> ts \<noteq> [] \<longrightarrow>
      prefix_loop env tokens (map Inr (prefix_form e) @ rest) ts cs =
        (case cascade env (TNum v # ts) (dec_top cs) of
           Inl e \<Rightarrow> Inl e
         | Inr (ts', cs') \<Rightarrow> prefix_loop env tokens rest ts' cs')"
    using prefix_loop_spec_expr by blast
  have c6: "\<forall>ts cs. cascade env ts (0 # cs) =
        (case reduce env ts of Inl e \<Rightarrow> Inl e | Inr ts' \<Rightarrow> cascade env ts' (dec_top cs))"
    by simp
  have c7: "\<forall>rhs lhs op rest. reduce env (rhs # lhs # op # rest) =
        (case eval_op env lhs rhs op of
           Inl e \<Rightarrow> Inl (prefix_reraise e)
         | Inr v \<Rightarrow> Inr (v # rest))"
    by (simp add: reduce_three)
  have c8: "dec_top [] = []"
    by simp
  have c9: "\<forall>c cs. dec_top (c # cs) = (c - 1) # cs"
    by simp
  have c10: "\<forall>ts c cs. c \<noteq> 0 \<longrightarrow> cascade env ts (c # cs) = Inr (ts, c # cs)"
    by simp
  have c11: "\<forall>ts. cascade env ts [] = Inr (ts, [])"
    by simp
  have c12: "\<forall>ts cs ts' cs'. cascade env ts cs = Inr (ts', cs') \<longrightarrow> cs' = [] \<or> hd cs' \<noteq> 0"
    using cascade_result_settled by blast
  show ?thesis
    by (intro conjI; (rule c1 | rule c2 | rule c3 | rule c4 | rule c5 | rule c6 | rule c7 | rule c8 | rule c9 | rule c10 | rule c11 | rule c12))
qed

theorem count_stack_invariant_witness:
  "visited ideal (Generator []) [TNum (PInt 4), TNum (PInt 3), TStr ''+'', TStr ''*''] [0, 2]
   \<and> set [0, 2 :: int] \<subseteq> {0, 1, 2} \<and> set (tl [0, 2 :: int]) \<subseteq> {1, 2}
   \<and> cascade ideal [TNum (PInt 4), TNum (PInt 3), TStr ''+'', TStr ''*''] [0, 2]
       = Inr ([TNum (PInt 7), TStr ''*''], [1])
   \<and> prefix_loop ideal (Generator []) [Inr (TNum (PInt 4)), Inr (TNum (PInt 5))]
         [TNum (PInt 3), TStr ''+'', TStr ''*''] [1, 2]
       = Inr ([TNum (PInt 35)], [])
   \<and> prefix_loop ideal (Generator [])
         [Inr (TStr ''*''), Inr (TStr ''+''), Inr (TNum (PInt 3)), Inr (TNum (PInt 4)),
          Inr (TNum (PInt 5))] [] []
       = Inr ([TNum (PInt 35)], [])
   \<and> visited ideal (Generator []) [TNum (PInt 35)] []"
proof -
  note T = count_stack_invariant [of ideal "Generator []"]
  let ?tokens = "Generator [] :: ideal_float token iterable"
  have v0: "visited ideal ?tokens [] []" by (rule visited.start)
  have "take_token ?tokens (TStr ''*'') [] [] [] = Inr (False, [TStr ''*''], [2])"
    by (simp add: take_token_def in_opcodes_def OPCODES_def)
  with v0 have v1: "visited ideal ?tokens [TStr ''*''] [2]"
    using visited.token [of ideal ?tokens "[]" "[]"] by blast
  have "take_token ?tokens (TStr ''+'') [] [TStr ''*''] [2] = Inr (False, [TStr ''+'', TStr ''*''], [2, 2])"
    by (simp add: take_token_def in_opcodes_def OPCODES_def)
  with v1 have v2: "visited ideal ?tokens [TStr ''+'', TStr ''*''] [2, 2]"
    using visited.token [of ideal ?tokens "[TStr ''*'']" "[2]"] by simp
  have "take_token ?tokens (TNum (PInt 3)) [] [TStr ''+'', TStr ''*''] [2, 2]
      = Inr (False, [TNum (PInt 3), TStr ''+'', TStr ''*''], [1, 2])"
    by (simp add: take_token_def)
  with v2 have v3: "visited ideal ?tokens [TNum (PInt 3), TStr ''+'', TStr ''*''] [1, 2]"
    using visited.token [of ideal ?tokens "[TStr ''+'', TStr ''*'']" "[2, 2]"] by simp
  have "take_token ?tokens (TNum (PInt 4)) [] [TNum (PInt 3), TStr ''+'', TStr ''*''] [1, 2]
      = Inr (False, [TNum (PInt 4), TNum (PInt 3), TStr ''+'', TStr ''*''], [0, 2])"
    by (simp add: take_token_def)
  with v3 have v4: "visited ideal ?tokens [TNum (PInt 4), TNum (PInt 3), TStr ''+'', TStr ''*''] [0, 2]"
    using visited.token [of ideal ?tokens "[TNum (PInt 3), TStr ''+'', TStr ''*'']" "[1, 2]"] by simp
  from T [THEN conjunct1, THEN spec, THEN spec, THEN mp, OF v4]
  have w2: "set [0, 2 :: int] \<subseteq> {0, 1, 2} \<and> set (tl [0, 2 :: int]) \<subseteq> {1, 2}" by simp
  have "cascade ideal [TNum (PInt 4), TNum (PInt 3), TStr ''+'', TStr ''*''] (0 # [2])
      = (case reduce ideal [TNum (PInt 4), TNum (PInt 3), TStr ''+'', TStr ''*''] of
           Inl e \<Rightarrow> Inl e | Inr ts' \<Rightarrow> cascade ideal ts' (dec_top [2]))"
    by (rule T [THEN conjunct2, THEN conjunct2, THEN conjunct2, THEN conjunct2, THEN conjunct2, THEN conjunct1, THEN spec, THEN spec])
  then have w3: "cascade ideal [TNum (PInt 4), TNum (PInt 3), TStr ''+'', TStr ''*''] [0, 2]
       = Inr ([TNum (PInt 7), TStr ''*''], [1])"
    by (simp add: reduce_def eval_op_def py_operator_def OPCODES_def)
  have "prefix_loop ideal ?tokens (Inr (TNum (PInt 4)) # [Inr (TNum (PInt 5))])
        (TNum (PInt 3) # TStr ''+'' # [TStr ''*'']) (1 # [2]) =
        (case eval_op ideal (TNum (PInt 3)) (TNum (PInt 4)) (TStr ''+'') of
           Inl e \<Rightarrow> Inl (prefix_reraise e)
         | Inr v \<Rightarrow>
             (case cascade ideal (v # [TStr ''*'']) (dec_top [2]) of
                Inl e \<Rightarrow> Inl e
              | Inr (ts', cs') \<Rightarrow> prefix_loop ideal ?tokens [Inr (TNum (PInt 5))] ts' cs'))"
    by (rule T [THEN conjunct2, THEN conjunct2, THEN conjunct2, THEN conjunct1, THEN spec, THEN spec, THEN spec, THEN spec, THEN spec, THEN spec])
  then have w4: "prefix_loop ideal ?tokens [Inr (TNum (PInt 4)), Inr (TNum (PInt 5))]
         [TNum (PInt 3), TStr ''+'', TStr ''*''] [1, 2]
       = Inr ([TNum (PInt 35)], [])"
    by (simp add: prefix_defs)
  have w5: "prefix_loop ideal ?tokens
         [Inr (TStr ''*''), Inr (TStr ''+''), Inr (TNum (PInt 3)), Inr (TNum (PInt 4)),
          Inr (TNum (PInt 5))] [] []
       = Inr ([TNum (PInt 35)], [])"
    by (simp add: prefix_defs)
  note w6 = T [THEN conjunct2, THEN conjunct1, THEN spec, THEN spec, THEN spec, THEN mp, OF w5, THEN conjunct1]
  from v4 w2 w3 w4 w5 w6 show ?thesis by (intro conjI) simp_all
qed


text \<open>
  Claim C10. Every \<^verbatim>\<open>str\<close> token of the tokenizer is a key of \<^verbatim>\<open>OPCODES\<close>. The stack
  engine calls \<^verbatim>\<open>_eval_op\<close> only with a token that is a key, and the forward scan, whatever
  its tokens, pops as \<^verbatim>\<open>op\<close> only a key of the table, so the lookup in \<^verbatim>\<open>_eval_op\<close> does
  not fail: no evaluation of an expression ends in a \<^verbatim>\<open>KeyError\<close> or in
  \<^verbatim>\<open>ValueError("Invalid operator seen.")\<close>.
\<close>

theorem unknown_operator_unreachable:
  "(\<forall>s. Inr (TStr s) \<in> set (iter (tokenize_expr env expr)) \<longrightarrow> map_of OPCODES s \<noteq> None)
   \<and> (\<forall>tok lhs rhs. in_opcodes tok \<longrightarrow> eval_op env lhs rhs tok \<noteq> Inl (Builtin KeyError))
   \<and> (\<forall>tokens ts cs. visited env tokens ts (0 # cs) \<longrightarrow>
        (\<exists>r l s rest. ts = TNum r # TNum l # TStr s # rest \<and> map_of OPCODES s \<noteq> None))
   \<and> (\<forall>e. eval_postfix_expr env expr = Inl e \<longrightarrow> exn_class e \<noteq> Some KeyError)
   \<and> (\<forall>e. eval_prefix_expr env expr = Inl e \<longrightarrow>
        exn_class e \<noteq> Some KeyError \<and> e \<noteq> Raise ValueError ''Invalid operator seen.'')"
proof -
  have c1: "\<forall>s. Inr (TStr s) \<in> set (iter (tokenize_expr env expr)) \<longrightarrow> map_of OPCODES s \<noteq> None"
    using tokenizer_string_tokens by blast
  have c2: "\<forall>tok lhs rhs. in_opcodes tok \<longrightarrow> eval_op env lhs rhs tok \<noteq> Inl (Builtin KeyError)"
    using eval_op_lookup by blast
  have c3: "\<forall>tokens ts cs. visited env tokens ts (0 # cs) \<longrightarrow>
        (\<exists>r l s rest. ts = TNum r # TNum l # TStr s # rest \<and> map_of OPCODES s \<noteq> None)"
    using visited_reduction_operator by blast
  have c4: "\<forall>e. eval_postfix_expr env expr = Inl e \<longrightarrow> exn_class e \<noteq> Some KeyError"
    using eval_postfix_expr_error by blast
  have c5: "\<forall>e. eval_prefix_expr env expr = Inl e \<longrightarrow>
        exn_class e \<noteq> Some KeyError \<and> e \<noteq> Raise ValueError ''Invalid operator seen.''"
    using eval_prefix_expr_error by blast
  show ?thesis
    by (intro conjI; (rule c1 | rule c2 | rule c3 | rule c4 | rule c5))
qed

theorem unknown_operator_unreachable_witness:
  "Inr (TStr ''+'') \<in> set (iter (tokenize_expr ideal ''1 2 3 +''))
   \<and> map_of OPCODES ''+'' \<noteq> None
   \<and> eval_postfix_expr ideal ''1 2 3 +'' = Inl (Raise ValueError ''Invalid expression.'')
   \<and> exn_class (Raise ValueError ''Invalid expression.'') \<noteq> Some KeyError
   \<and> eval_prefix_expr ideal ''/ 102 0'' = Inl (Raise ValueError ''Can not divide by zero.'')
   \<and> Raise ValueError ''Can not divide by zero.'' \<noteq> Raise ValueError ''Invalid operator seen.''"
proof -
  note T = unknown_operator_unreachable [of ideal "''1 2 3 +''"]
  note U = unknown_operator_unreachable [of ideal "''/ 102 0''"]
  have m: "Inr (TStr ''+'') \<in> set (iter (tokenize_expr ideal ''1 2 3 +''))"
    by (simp add: tokens_1_2_3_plus)
  have w1: "map_of OPCODES ''+'' \<noteq> None"
    by (rule T [THEN conjunct1, THEN spec, THEN mp, OF m])
  note e1 = postfix_1_2_3_plus [of ideal]
  have w2: "exn_class (Raise ValueError ''Invalid expression.'') \<noteq> Some KeyError"
    by (rule T [THEN conjunct2, THEN conjunct2, THEN conjunct2, THEN conjunct1, THEN spec, THEN mp,
          OF e1])
  note e2 = prefix_div_102_0 [of ideal]
  have w3: "Raise ValueError ''Can not divide by zero.'' \<noteq> Raise ValueError ''Invalid operator seen.''"
    by (rule U [THEN conjunct2, THEN conjunct2, THEN conjunct2, THEN conjunct2, THEN spec, THEN mp,
          OF e2, THEN conjunct2])
  from m w1 e1 w2 e2 w3 show ?thesis by (intro conjI)
qed

end
